theory Spec2Isabelle
  imports Main
begin

section \<open>Python values and strings\<close>

text \<open>
  A Python \<open>str\<close> is a sequence of Unicode code points, so it is modelled as a list of
  naturals (\<open>char\<close> of HOL is a byte and cannot hold U+200B). \<open>ustr\<close> turns an ASCII
  literal of HOL into such a string.
\<close>

type_synonym ustr = "nat list"

definition ustr :: "string \<Rightarrow> ustr" where
  "ustr s = map of_char s"

text \<open>
  The extractor returns loosely typed values; the fields the program reads are scalars.
  A float is not computed with: \<open>PFloat r t\<close> is a float whose \<open>repr\<close> is \<open>r\<close> and which
  is nonzero iff \<open>t\<close>, since the program only takes \<open>str()\<close> and the truth value of it.
\<close>

datatype pyval = PNone | PBool bool | PInt int | PFloat ustr bool | PStr ustr

fun truthy :: "pyval \<Rightarrow> bool" where
  "truthy PNone = False"
| "truthy (PBool b) = b"
| "truthy (PInt i) = (i \<noteq> 0)"
| "truthy (PStr s) = (s \<noteq> [])"
| "truthy (PFloat r t) = t"

text \<open>\<open>a or b\<close> of Python on values: the first operand when it is truthy, else the second.\<close>

definition py_or :: "pyval \<Rightarrow> pyval \<Rightarrow> pyval" where
  "py_or a b = (if truthy a then a else b)"

fun dec :: "nat \<Rightarrow> ustr" where
  "dec n = (if n < 10 then [48 + n] else dec (n div 10) @ [48 + n mod 10])"

declare dec.simps [simp del]

definition str_int :: "int \<Rightarrow> ustr" where
  "str_int i = (if i < 0 then 45 # dec (nat (- i)) else dec (nat i))"

fun str :: "pyval \<Rightarrow> ustr" where
  "str PNone = ustr ''None''"
| "str (PBool b) = (if b then ustr ''True'' else ustr ''False'')"
| "str (PInt i) = str_int i"
| "str (PStr s) = s"
| "str (PFloat r t) = r"

section \<open>Text helpers\<close>

text \<open>
  \<open>str.strip()\<close> without argument removes leading and trailing white space, which for a
  \<open>str\<close> is the set of code points with \<open>isspace()\<close> true (CPython 3.11, Unicode 14).
  U+00A0 is in it; U+200B..U+200F and U+FEFF are not.
\<close>

definition is_space :: "nat \<Rightarrow> bool" where
  "is_space c \<longleftrightarrow>
     (9 \<le> c \<and> c \<le> 13) \<or> (28 \<le> c \<and> c \<le> 32) \<or> c = 133 \<or> c = 160 \<or> c = 5760 \<or>
     (8192 \<le> c \<and> c \<le> 8202) \<or> c = 8232 \<or> c = 8233 \<or> c = 8239 \<or> c = 8287 \<or> c = 12288"

definition strip :: "ustr \<Rightarrow> ustr" where
  "strip s = rev (dropWhile is_space (rev (dropWhile is_space s)))"

text \<open>\<open>s.replace(a, b)\<close> for one-character \<open>a\<close> and \<open>b\<close>.\<close>

definition replace_char :: "nat \<Rightarrow> nat \<Rightarrow> ustr \<Rightarrow> ustr" where
  "replace_char a b s = map (\<lambda>c. if c = a then b else c) s"

text \<open>\<open>ZERO_WIDTH\<close> is the compiled character class of U+200B to U+200F and U+FEFF.\<close>

definition ZERO_WIDTH :: "nat \<Rightarrow> bool" where
  "ZERO_WIDTH c \<longleftrightarrow> (8203 \<le> c \<and> c \<le> 8207) \<or> c = 65279"

fun clean_text :: "pyval \<Rightarrow> ustr" where
  "clean_text PNone = []"
| "clean_text s =
     filter (\<lambda>c. \<not> ZERO_WIDTH c)
       (replace_char 8228 46 (replace_char 160 32 (strip (str s))))"

text \<open>
  \<open>to_int_str\<close> keeps the characters that the pattern \<open>\d\<close> matches: for a \<open>str\<close>
  pattern these are the decimal digits of Unicode (category Nd), which come in blocks of
  ten consecutive code points; \<open>nd_zeros\<close> lists the zero of every block (Unicode 14).
\<close>

definition nd_zeros :: "nat list" where
  "nd_zeros =
    [48, 1632, 1776, 1984, 2406, 2534, 2662, 2790, 2918, 3046, 3174, 3302, 3430, 3558,
     3664, 3792, 3872, 4160, 4240, 6112, 6160, 6470, 6608, 6784, 6800, 6992, 7088, 7232,
     7248, 42528, 43216, 43264, 43472, 43504, 43600, 44016, 65296, 66720, 68912, 69734,
     69872, 69942, 70096, 70384, 70736, 70864, 71248, 71360, 71472, 71904, 72016, 72784,
     73040, 73120, 92768, 92864, 93008, 120782, 120792, 120802, 120812, 120822, 123200,
     123632, 125264, 130032]"

definition digit_val :: "nat \<Rightarrow> nat option" where
  "digit_val c =
     (case filter (\<lambda>z. z \<le> c \<and> c < z + 10) nd_zeros of
        [] \<Rightarrow> None
      | z # _ \<Rightarrow> Some (c - z))"

definition is_digit :: "nat \<Rightarrow> bool" where
  "is_digit c \<longleftrightarrow> digit_val c \<noteq> None"

fun to_int_str :: "pyval \<Rightarrow> ustr" where
  "to_int_str PNone = []"
| "to_int_str val = filter is_digit (str val)"

text \<open>
  \<open>int(s)\<close> on a string of decimal digits. The program applies it to results of
  \<open>to_int_str\<close> only, so the branch for a character that is no digit (where Python
  raises) is never taken; the length guard of recent CPython releases on very long digit
  strings is a setting of the interpreter and is left out.
\<close>

definition int_of_digits :: "ustr \<Rightarrow> int" where
  "int_of_digits s =
     foldl (\<lambda>a c. 10 * a + (case digit_val c of None \<Rightarrow> 0 | Some d \<Rightarrow> int d)) 0 s"

text \<open>\<open>int(to_int_str(v) or 0)\<close>\<close>

definition int_or_0 :: "pyval \<Rightarrow> int" where
  "int_or_0 v = (let s = to_int_str v in if s = [] then 0 else int_of_digits s)"

text \<open>
  \<open>sanitize_name\<close>: every maximal run of characters outside \<open>[A-Za-z0-9._-]\<close> becomes one
  underscore, then underscores are stripped from both ends.
\<close>

definition name_char :: "nat \<Rightarrow> bool" where
  "name_char c \<longleftrightarrow>
     (65 \<le> c \<and> c \<le> 90) \<or> (97 \<le> c \<and> c \<le> 122) \<or> (48 \<le> c \<and> c \<le> 57) \<or>
     c = 46 \<or> c = 95 \<or> c = 45"

function sub_runs :: "ustr \<Rightarrow> ustr" where
  "sub_runs [] = []"
| "sub_runs (c # cs) =
     (if name_char c then c # sub_runs cs
      else 95 # sub_runs (dropWhile (\<lambda>d. \<not> name_char d) cs))"
  by pat_completeness auto
termination
  by (relation "measure length") (auto simp: less_Suc_eq_le length_dropWhile_le)

definition strip_chars :: "nat \<Rightarrow> ustr \<Rightarrow> ustr" where
  "strip_chars u s = rev (dropWhile (\<lambda>c. c = u) (rev (dropWhile (\<lambda>c. c = u) s)))"

definition sanitize_name :: "ustr \<Rightarrow> ustr" where
  "sanitize_name name = strip_chars 95 (sub_runs name)"

section \<open>The world outside the program\<close>

text \<open>
  The clock, the generator of identifiers and the extractor are oracles: \<open>clock env n\<close> is
  what the \<open>n\<close>-th call of \<open>now_ms\<close> returns, \<open>uuid env n\<close> the text of the \<open>n\<close>-th
  \<open>uuid4()\<close>, \<open>video env n v\<close> what the \<open>n\<close>-th extraction does when it is asked for
  the video \<open>v\<close>, and likewise \<open>playlist\<close> for a playlist URL and \<open>feed\<close> for the
  subscription feed. \<open>have_cookie_spec\<close> is the extractor's check of a cookie
  specification, \<open>help_text\<close> the usage text that the argument parser prints,
  \<open>exc_text\<close> the message of an exception, \<open>platform\<close>, \<open>home\<close> and \<open>appdata\<close> are \<open>sys.platform\<close>, the home directory and the
  variable \<open>APPDATA\<close>. The world counts the calls made so far, and holds the console and
  the file system.
\<close>

type_synonym pydict = "string \<rightharpoonup> pyval"

definition get :: "pydict \<Rightarrow> string \<Rightarrow> pyval" where
  "get e k = (case e k of None \<Rightarrow> PNone | Some v \<Rightarrow> v)"

datatype 'a extracted = Raises | Nothing | Info 'a

text \<open>
  The exceptions of the model: those that the program raises itself, and
  \<open>ExtractorError\<close> for any exception that comes out of the extractor.
\<close>

datatype error =
  ValueError | RuntimeError | FileNotFoundError | ExtractorError

record fs_file =
  content :: ustr
  durable :: ustr

record world =
  ticks :: nat
  uuids :: nat
  fetches :: nat
  console :: "ustr list"
  files :: "ustr \<rightharpoonup> fs_file"
  dirs :: "ustr set"

record playlist_info =
  info_title :: pyval
  info_entries :: "pydict list option"

record feed_info =
  feed_entries :: "pydict option list option"

record env =
  clock :: "nat \<Rightarrow> int"
  uuid :: "nat \<Rightarrow> ustr"
  video :: "nat \<Rightarrow> ustr \<Rightarrow> pydict extracted"
  playlist :: "nat \<Rightarrow> ustr \<Rightarrow> playlist_info extracted"
  feed :: "nat \<Rightarrow> feed_info extracted"
  have_cookie_spec :: "ustr \<Rightarrow> bool"
  help_text :: ustr
  exc_text :: "error \<Rightarrow> ustr"
  platform :: string
  home :: ustr
  appdata :: "ustr option"

definition now_ms :: "env \<Rightarrow> world \<Rightarrow> int \<times> world" where
  "now_ms env w = (clock env (ticks w), w\<lparr>ticks := Suc (ticks w)\<rparr>)"

definition uuid4 :: "env \<Rightarrow> world \<Rightarrow> ustr \<times> world" where
  "uuid4 env w = (uuid env (uuids w), w\<lparr>uuids := Suc (uuids w)\<rparr>)"

definition print :: "ustr \<Rightarrow> world \<Rightarrow> world" where
  "print line w = w\<lparr>console := console w @ [line]\<rparr>"

text \<open>
  \<open>cprint\<close> prints head and rest unless \<open>quiet\<close>; the colour codes that colorama puts
  around the head are not part of the model.
\<close>

definition cprint :: "ustr \<Rightarrow> ustr \<Rightarrow> bool \<Rightarrow> world \<Rightarrow> world" where
  "cprint head rest quiet w = (if quiet then w else print (head @ rest) w)"

section \<open>Data models\<close>

record FreeTubeVideo =
  videoId :: ustr
  title :: ustr
  author :: ustr
  authorId :: ustr
  lengthSeconds :: int
  published :: int
  timeAdded :: int
  playlistItemId :: ustr
  type :: ustr

definition NA :: pyval where
  "NA = PStr (ustr ''N/A'')"

definition from_ytdlp_entry :: "env \<Rightarrow> pydict \<Rightarrow> world \<Rightarrow> FreeTubeVideo \<times> world" where
  "from_ytdlp_entry env e w =
     (let (t, w1) = now_ms env w;
          (u, w2) = uuid4 env w1
      in (\<lparr>videoId = clean_text (py_or (get e ''id'') NA),
           title = clean_text (py_or (get e ''title'') NA),
           author = clean_text (py_or (py_or (get e ''channel'') (get e ''uploader'')) NA),
           authorId = clean_text (py_or (py_or (get e ''channel_id'') (get e ''uploader_id'')) NA),
           lengthSeconds = int_or_0 (py_or (get e ''duration'') (PInt 0)),
           published = int_or_0 (py_or (get e ''timestamp'') (PInt 0)),
           timeAdded = t,
           playlistItemId = u,
           type = ustr ''video''\<rparr>, w2))"

definition placeholder :: "env \<Rightarrow> ustr \<Rightarrow> world \<Rightarrow> FreeTubeVideo \<times> world" where
  "placeholder env video_id w =
     (let (t, w1) = now_ms env w;
          (u, w2) = uuid4 env w1
      in (\<lparr>videoId = video_id,
           title = ustr ''N/A'',
           author = ustr ''N/A'',
           authorId = ustr ''N/A'',
           lengthSeconds = 0,
           published = 0,
           timeAdded = t,
           playlistItemId = u,
           type = ustr ''video''\<rparr>, w2))"

record FreeTubePlaylist =
  playlistName :: ustr
  protected :: bool
  description :: ustr
  videos :: "FreeTubeVideo list"
  playlist_id :: ustr
  createdAt :: int
  lastUpdatedAt :: int

text \<open>\<open>FreeTubePlaylist.new\<close>; the field \<open>_id\<close> of the source is \<open>playlist_id\<close> here.\<close>

definition new :: "env \<Rightarrow> ustr \<Rightarrow> ustr \<Rightarrow> world \<Rightarrow> FreeTubePlaylist \<times> world" where
  "new env name descr w =
     (let (ts, w1) = now_ms env w;
          (u, w2) = uuid4 env w1
      in (\<lparr>playlistName = (if name \<noteq> [] then name else ustr ''Imported Playlist''),
           protected = False,
           description = descr,
           videos = [],
           playlist_id = ustr ''ft-playlist--'' @ u,
           createdAt = ts,
           lastUpdatedAt = ts\<rparr>, w2))"

definition add_video ::
  "env \<Rightarrow> FreeTubePlaylist \<Rightarrow> FreeTubeVideo \<Rightarrow> world \<Rightarrow> FreeTubePlaylist \<times> world" where
  "add_video env self v w =
     (let (t, w1) = now_ms env w
      in (self\<lparr>videos := videos self @ [v], lastUpdatedAt := t\<rparr>, w1))"

section \<open>Builders\<close>

text \<open>
  \<open>build_freetube_from_entries\<close>. \<open>info\<close> is the playlist record of the extractor, of
  which the title and the entries are read; \<open>name\<close> is \<open>None\<close> or the name given on the
  command line.
\<close>

definition keeps :: "pydict \<Rightarrow> bool" where
  "keeps e \<longleftrightarrow> clean_text (py_or (get e ''id'') (PStr [])) \<noteq> []"

fun add_entries ::
  "env \<Rightarrow> FreeTubePlaylist \<Rightarrow> pydict list \<Rightarrow> world \<Rightarrow> FreeTubePlaylist \<times> world" where
  "add_entries env ft [] w = (ft, w)"
| "add_entries env ft (e # es) w =
     (let vid = clean_text (py_or (get e ''id'') (PStr []))
      in if vid = [] then add_entries env ft es w
         else (let (v, w1) = from_ytdlp_entry env e w;
                   (ft', w2) = add_video env ft v w1
               in add_entries env ft' es w2))"

definition or_str :: "ustr \<Rightarrow> ustr \<Rightarrow> ustr" where
  "or_str a b = (if a \<noteq> [] then a else b)"

definition build_freetube_from_entries ::
  "env \<Rightarrow> playlist_info \<Rightarrow> ustr option \<Rightarrow> ustr \<Rightarrow> world \<Rightarrow> FreeTubePlaylist \<times> world" where
  "build_freetube_from_entries env info name descr w =
     (let entries = (case info_entries info of None \<Rightarrow> [] | Some es \<Rightarrow> es);
          pl_name = or_str (case name of None \<Rightarrow> [] | Some n \<Rightarrow> n)
                      (or_str (clean_text (py_or (info_title info) (PStr [])))
                         (ustr ''Imported Playlist''));
          (ft, w1) = new env pl_name descr w
      in add_entries env ft entries w1)"

text \<open>
  \<open>YTDLPClient.extract_video_min\<close>: an exception of the extractor and an empty answer
  both give the dictionary that holds the ID alone.
\<close>

definition extract_video_min :: "env \<Rightarrow> ustr \<Rightarrow> world \<Rightarrow> pydict \<times> world" where
  "extract_video_min env video_id w =
     (let w1 = w\<lparr>fetches := Suc (fetches w)\<rparr>
      in case video env (fetches w) video_id of
           Raises \<Rightarrow> ([''id'' \<mapsto> PStr video_id], w1)
         | Nothing \<Rightarrow> ([''id'' \<mapsto> PStr video_id], w1)
         | Info info \<Rightarrow>
             if info = Map.empty then ([''id'' \<mapsto> PStr video_id], w1) else (info, w1))"

definition sep3 :: ustr where
  "sep3 = ustr ''  |  ''"

fun add_ids ::
  "env \<Rightarrow> bool \<Rightarrow> FreeTubePlaylist \<Rightarrow> ustr list \<Rightarrow> world \<Rightarrow> FreeTubePlaylist \<times> world" where
  "add_ids env quiet ft [] w = (ft, w)"
| "add_ids env quiet ft (vid # ids) w =
     (let (meta, w1) = extract_video_min env vid w;
          (v, w2) = (if meta ''id'' \<noteq> None \<and> get meta ''title'' \<noteq> PNone
                     then from_ytdlp_entry env meta w1
                     else placeholder env vid w1);
          (ft', w3) = add_video env ft v w2;
          w4 = (if quiet then w3
                else print (vid @ sep3 @ title (last (videos ft')) @ sep3 @
                            author (last (videos ft'))) w3)
      in add_ids env quiet ft' ids w4)"

definition build_freetube_from_ids ::
  "env \<Rightarrow> ustr list \<Rightarrow> ustr \<Rightarrow> ustr \<Rightarrow> bool \<Rightarrow> world \<Rightarrow> FreeTubePlaylist \<times> world" where
  "build_freetube_from_ids env ids name descr quiet w =
     (let (ft, w1) =
            new env (or_str name
                       (ustr ''Imported IDs ('' @ dec (length ids) @ ustr '' videos)'')) descr w
      in add_ids env quiet ft ids w1)"

section \<open>Subscriptions\<close>

text \<open>
  \<open>fetch_subscriptions_via_ytdlp\<close>. A feed entry is \<open>None\<close> or a dictionary; the empty
  dictionary is falsy as \<open>None\<close> is. The parser of the cookie specification belongs to the
  extractor's side: \<open>have_cookie_spec env\<close> says whether it accepts the text (it raises
  \<open>ValueError\<close> otherwise).
\<close>

definition channel_url :: "pyval \<Rightarrow> ustr" where
  "channel_url ch_id = ustr ''https://www.youtube.com/channel/'' @ str ch_id"

fun subs_loop :: "pydict option list \<Rightarrow> (ustr \<times> pyval) list" where
  "subs_loop [] = []"
| "subs_loop (None # es) = subs_loop es"
| "subs_loop (Some e # es) =
     (if e = Map.empty then subs_loop es
      else (let ch_id = py_or (get e ''channel_id'') (get e ''id'');
                name = py_or (py_or (get e ''title'') (get e ''channel'')) (PStr (ustr ''Unknown''))
            in if \<not> truthy ch_id then subs_loop es
               else (channel_url ch_id, name) # subs_loop es))"

definition fetch_subscriptions_via_ytdlp ::
  "env \<Rightarrow> ustr option \<Rightarrow> ustr option \<Rightarrow> world \<Rightarrow> (error + (ustr \<times> pyval) list) \<times> world" where
  "fetch_subscriptions_via_ytdlp env browser_cookies cookies_file w =
     (if (cookies_file = None \<or> cookies_file = Some []) \<and>
         (case browser_cookies of None \<Rightarrow> False
          | Some b \<Rightarrow> b \<noteq> [] \<and> \<not> have_cookie_spec env b)
      then (Inl ValueError, w)
      else (let w1 = w\<lparr>fetches := Suc (fetches w)\<rparr>
            in case feed env (fetches w) of
                 Raises \<Rightarrow> (Inl ExtractorError, w1)
               | Nothing \<Rightarrow> (Inl RuntimeError, w1)
               | Info info \<Rightarrow>
                   (case feed_entries info of
                      None \<Rightarrow> (Inl RuntimeError, w1)
                    | Some es \<Rightarrow> (Inr (subs_loop es), w1))))"

section \<open>JSON text\<close>

text \<open>
  The values that the exporters hand to \<open>json.dump\<close>, and the text \<open>json.dump\<close> makes of
  them. \<open>JFloat r\<close> is a float whose \<open>repr\<close> is \<open>r\<close>. The keys of an object keep the
  order of insertion, as the dictionaries of Python do.
\<close>

datatype json =
  JNull | JBool bool | JInt int | JFloat ustr | JStr ustr
  | JArr "json list" | JObj "(ustr \<times> json) list"

definition hex_digit :: "nat \<Rightarrow> nat" where
  "hex_digit d = (if d < 10 then 48 + d else 87 + d)"

text \<open>\<open>'\\u{0:04x}'.format(n)\<close>\<close>

definition u_escape :: "nat \<Rightarrow> ustr" where
  "u_escape n =
     [92, 117, hex_digit (n div 4096 mod 16), hex_digit (n div 256 mod 16),
      hex_digit (n div 16 mod 16), hex_digit (n mod 16)]"

text \<open>
  One character of a string under \<open>ensure_ascii=True\<close>: the quote, the backslash and
  everything outside space to tilde is escaped, a character beyond U+FFFF as a surrogate
  pair. Under \<open>ensure_ascii=False\<close> only the quote, the backslash and the characters below
  space are.
\<close>

definition short_escape :: "nat \<Rightarrow> ustr option" where
  "short_escape c =
     (if c = 92 then Some [92, 92]
      else if c = 34 then Some [92, 34]
      else if c = 8 then Some [92, 98]
      else if c = 12 then Some [92, 102]
      else if c = 10 then Some [92, 110]
      else if c = 13 then Some [92, 114]
      else if c = 9 then Some [92, 116]
      else None)"

definition escape_ascii :: "nat \<Rightarrow> ustr" where
  "escape_ascii c =
     (case short_escape c of
        Some e \<Rightarrow> e
      | None \<Rightarrow>
          if 32 \<le> c \<and> c \<le> 126 then [c]
          else if c < 65536 then u_escape c
          else (let n = c - 65536
                in u_escape (55296 + (n div 1024) mod 1024) @ u_escape (56320 + n mod 1024)))"

definition escape_plain :: "nat \<Rightarrow> ustr" where
  "escape_plain c =
     (case short_escape c of
        Some e \<Rightarrow> e
      | None \<Rightarrow> if c < 32 then u_escape c else [c])"

definition encode_str :: "bool \<Rightarrow> ustr \<Rightarrow> ustr" where
  "encode_str ensure_ascii s =
     34 # concat (map (if ensure_ascii then escape_ascii else escape_plain) s) @ [34]"

definition float_str :: "ustr \<Rightarrow> ustr" where
  "float_str r =
     (if r = ustr ''nan'' then ustr ''NaN''
      else if r = ustr ''inf'' then ustr ''Infinity''
      else if r = ustr ''-inf'' then ustr ''-Infinity''
      else r)"

fun join :: "ustr \<Rightarrow> ustr list \<Rightarrow> ustr" where
  "join sep [] = []"
| "join sep [x] = x"
| "join sep (x # y # ys) = x @ sep @ join sep (y # ys)"

text \<open>
  \<open>encode ensure_ascii indent level v\<close>: with \<open>indent = None\<close> the separators are the
  \<open>(",", ":")\<close> that the exporters pass; with \<open>indent = Some k\<close> every item starts a new
  line indented by \<open>k\<close> spaces per level and the separators are \<open>","\<close> and \<open>": "\<close>.
\<close>

definition newline_indent :: "nat option \<Rightarrow> nat \<Rightarrow> ustr" where
  "newline_indent indent level =
     (case indent of None \<Rightarrow> [] | Some k \<Rightarrow> 10 # replicate (k * level) 32)"

definition key_separator :: "nat option \<Rightarrow> ustr" where
  "key_separator indent = (case indent of None \<Rightarrow> [58] | Some k \<Rightarrow> [58, 32])"

fun encode :: "bool \<Rightarrow> nat option \<Rightarrow> nat \<Rightarrow> json \<Rightarrow> ustr" where
  "encode a ind lvl JNull = ustr ''null''"
| "encode a ind lvl (JBool b) = (if b then ustr ''true'' else ustr ''false'')"
| "encode a ind lvl (JInt i) = str_int i"
| "encode a ind lvl (JFloat r) = float_str r"
| "encode a ind lvl (JStr s) = encode_str a s"
| "encode a ind lvl (JArr vs) =
     (if vs = [] then ustr ''[]''
      else 91 # newline_indent ind (Suc lvl) @
           join (44 # newline_indent ind (Suc lvl)) (map (encode a ind (Suc lvl)) vs) @
           newline_indent ind lvl @ [93])"
| "encode a ind lvl (JObj kvs) =
     (if kvs = [] then ustr ''{}''
      else 123 # newline_indent ind (Suc lvl) @
           join (44 # newline_indent ind (Suc lvl))
             (map (\<lambda>kv. encode_str a (fst kv) @ key_separator ind @
                           encode a ind (Suc lvl) (snd kv)) kvs) @
           newline_indent ind lvl @ [125])"

text \<open>
  \<open>json.dump(obj, f, separators=(",", ":"))\<close>, where \<open>ensure_ascii\<close> has its default
  \<open>True\<close>, and the two forms the other exporters choose between by \<open>pretty\<close>.
\<close>

definition dump_ascii :: "json \<Rightarrow> ustr" where
  "dump_ascii v = encode True None 0 v"

definition dump_unicode :: "bool \<Rightarrow> json \<Rightarrow> ustr" where
  "dump_unicode pretty v = encode False (if pretty then Some 2 else None) 0 v"

section \<open>Paths and files\<close>

text \<open>
  \<open>os.path\<close> is \<open>posixpath\<close>: the model covers runs on a POSIX system. A file is
  identified by the text of its path. The file system does not fail on its own: the
  model has the errors that the program raises itself, not those of the operating
  system. The content of a text file is the text written, and \<open>durable\<close> is what of it
  has been forced to storage.
\<close>

definition rfind :: "nat \<Rightarrow> ustr \<Rightarrow> nat option" where
  "rfind c p =
     (case filter (\<lambda>i. p ! i = c) (rev [0..<length p]) of [] \<Rightarrow> None | i # _ \<Rightarrow> Some i)"

definition after_sep :: "ustr \<Rightarrow> nat" where
  "after_sep p = (case rfind 47 p of None \<Rightarrow> 0 | Some i \<Rightarrow> Suc i)"

definition basename :: "ustr \<Rightarrow> ustr" where
  "basename p = drop (after_sep p) p"

definition rstrip_chars :: "nat \<Rightarrow> ustr \<Rightarrow> ustr" where
  "rstrip_chars u s = rev (dropWhile (\<lambda>c. c = u) (rev s))"

definition dirname :: "ustr \<Rightarrow> ustr" where
  "dirname p =
     (let head = take (after_sep p) p
      in if head \<noteq> [] \<and> head \<noteq> replicate (length head) 47 then rstrip_chars 47 head
         else head)"

definition splitext :: "ustr \<Rightarrow> ustr \<times> ustr" where
  "splitext p =
     (case rfind 46 p of
        None \<Rightarrow> (p, [])
      | Some d \<Rightarrow>
          if after_sep p \<le> d \<and> list_ex (\<lambda>i. p ! i \<noteq> 46) [after_sep p..<d]
          then (take d p, drop d p) else (p, []))"

definition path_join :: "ustr \<Rightarrow> ustr \<Rightarrow> ustr" where
  "path_join a b =
     (if b \<noteq> [] \<and> hd b = 47 then b
      else if a = [] \<or> last a = 47 then a @ b
      else a @ [47] @ b)"

definition isfile :: "world \<Rightarrow> ustr \<Rightarrow> bool" where
  "isfile w p \<longleftrightarrow> files w p \<noteq> None"

definition isdir :: "world \<Rightarrow> ustr \<Rightarrow> bool" where
  "isdir w p \<longleftrightarrow> p = ustr ''.'' \<or> p \<in> dirs w"

definition exists :: "world \<Rightarrow> ustr \<Rightarrow> bool" where
  "exists w p \<longleftrightarrow> isfile w p \<or> isdir w p"

definition stored :: "world \<Rightarrow> ustr \<Rightarrow> fs_file" where
  "stored w p = (case files w p of None \<Rightarrow> \<lparr>content = [], durable = []\<rparr> | Some f \<Rightarrow> f)"

text \<open>
  An open text file: what has been written to it stays in the buffer of the file object
  until it is flushed. \<open>open_a\<close> opens for appending and creates a missing file;
  \<open>open_w\<close> truncates.
\<close>

record handle =
  hpath :: ustr
  buffer :: ustr

definition open_a :: "ustr \<Rightarrow> world \<Rightarrow> handle \<times> world" where
  "open_a p w = (\<lparr>hpath = p, buffer = []\<rparr>, w\<lparr>files := (files w)(p \<mapsto> stored w p)\<rparr>)"

definition open_w :: "ustr \<Rightarrow> world \<Rightarrow> handle \<times> world" where
  "open_w p w =
     (\<lparr>hpath = p, buffer = []\<rparr>, w\<lparr>files := (files w)(p \<mapsto> (stored w p)\<lparr>content := []\<rparr>)\<rparr>)"

definition fwrite :: "handle \<Rightarrow> ustr \<Rightarrow> handle" where
  "fwrite f s = f\<lparr>buffer := buffer f @ s\<rparr>"

definition fflush :: "handle \<Rightarrow> world \<Rightarrow> handle \<times> world" where
  "fflush f w =
     (f\<lparr>buffer := []\<rparr>,
      w\<lparr>files := (files w)(hpath f \<mapsto>
            (stored w (hpath f))\<lparr>content := content (stored w (hpath f)) @ buffer f\<rparr>)\<rparr>)"

definition fsync :: "handle \<Rightarrow> world \<Rightarrow> world" where
  "fsync f w =
     w\<lparr>files := (files w)(hpath f \<mapsto>
           (stored w (hpath f))\<lparr>durable := content (stored w (hpath f))\<rparr>)\<rparr>"

definition fclose :: "handle \<Rightarrow> world \<Rightarrow> world" where
  "fclose f w = snd (fflush f w)"

text \<open>\<open>with open(path, "w", encoding="utf-8") as f: f.write(text)\<close>\<close>

definition write_file :: "ustr \<Rightarrow> ustr \<Rightarrow> world \<Rightarrow> world" where
  "write_file p text w = (let (f, w1) = open_w p w in fclose (fwrite f text) w1)"

definition makedirs :: "ustr \<Rightarrow> world \<Rightarrow> world" where
  "makedirs p w = w\<lparr>dirs := insert p (dirs w)\<rparr>"

section \<open>Exporters\<close>

text \<open>
  An optional text argument is falsy when it is \<open>None\<close> or empty: \<open>or_else x d\<close> is
  \<open>x or d\<close>.
\<close>

definition or_else :: "ustr option \<Rightarrow> ustr \<Rightarrow> ustr" where
  "or_else x d = (case x of None \<Rightarrow> d | Some s \<Rightarrow> if s \<noteq> [] then s else d)"

definition lower_ascii :: "nat \<Rightarrow> nat" where
  "lower_ascii c = (if 65 \<le> c \<and> c \<le> 90 then c + 32 else c)"

text \<open>
  \<open>user_path.lower().endswith((".db", ".json"))\<close>: the only characters that \<open>lower()\<close>
  maps to a character of the two suffixes are these characters and their ASCII capitals.
\<close>

definition endswith :: "ustr \<Rightarrow> ustr \<Rightarrow> bool" where
  "endswith s suffix \<longleftrightarrow>
     length suffix \<le> length s \<and> drop (length s - length suffix) s = suffix"

definition db_suffix :: "ustr \<Rightarrow> bool" where
  "db_suffix p \<longleftrightarrow>
     endswith (map lower_ascii p) (ustr ''.db'') \<or> endswith (map lower_ascii p) (ustr ''.json'')"

definition startswith :: "string \<Rightarrow> string \<Rightarrow> bool" where
  "startswith s prefix \<longleftrightarrow> take (length prefix) s = prefix"

definition freetube_db_path :: "env \<Rightarrow> ustr option \<Rightarrow> world \<Rightarrow> ustr" where
  "freetube_db_path env user_path w =
     (let database_name = ustr ''playlists.db''
      in if or_else user_path [] \<noteq> [] then
           (let up = or_else user_path []
            in if isfile w up \<or> db_suffix up then up else path_join up database_name)
         else
           (let base =
                  (if startswith (platform env) ''win'' then
                     path_join (or_else (appdata env) []) (ustr ''FreeTube'')
                   else if startswith (platform env) ''linux'' then
                     (let flatpak =
                            path_join (home env)
                              (ustr ''.var/app/io.freetubeapp.FreeTube/config/FreeTube'')
                      in if exists w flatpak then flatpak
                         else path_join (home env) (ustr ''.config/FreeTube''))
                   else if platform env = ''darwin'' then
                     path_join (home env) (ustr ''Library/Application Support/FreeTube'')
                   else path_join (home env) (ustr ''.config/FreeTube''))
            in path_join base database_name))"

definition ensure_file_exists :: "ustr \<Rightarrow> world \<Rightarrow> error + world" where
  "ensure_file_exists p w =
     (let parent = (if dirname p \<noteq> [] then dirname p else ustr ''.'')
      in if \<not> isdir w parent then Inl FileNotFoundError
         else if \<not> exists w p then (let (f, w1) = open_a p w in Inr (fclose f w1))
         else Inr w)"

definition asdict_video :: "FreeTubeVideo \<Rightarrow> json" where
  "asdict_video v =
     JObj [(ustr ''videoId'', JStr (videoId v)),
           (ustr ''title'', JStr (title v)),
           (ustr ''author'', JStr (author v)),
           (ustr ''authorId'', JStr (authorId v)),
           (ustr ''lengthSeconds'', JInt (lengthSeconds v)),
           (ustr ''published'', JInt (published v)),
           (ustr ''timeAdded'', JInt (timeAdded v)),
           (ustr ''playlistItemId'', JStr (playlistItemId v)),
           (ustr ''type'', JStr (type v))]"

definition to_json_obj :: "FreeTubePlaylist \<Rightarrow> json" where
  "to_json_obj self =
     JObj [(ustr ''playlistName'', JStr (playlistName self)),
           (ustr ''protected'', JBool (protected self)),
           (ustr ''description'', JStr (description self)),
           (ustr ''videos'', JArr (map asdict_video (videos self))),
           (ustr ''_id'', JStr (playlist_id self)),
           (ustr ''createdAt'', JInt (createdAt self)),
           (ustr ''lastUpdatedAt'', JInt (lastUpdatedAt self))]"

definition check_mark :: ustr where
  "check_mark = [10003, 32]"

definition export_freetube_db ::
  "env \<Rightarrow> FreeTubePlaylist \<Rightarrow> ustr option \<Rightarrow> bool \<Rightarrow> world \<Rightarrow> (error + ustr) \<times> world" where
  "export_freetube_db env pl user_path quiet w =
     (let db_path = freetube_db_path env user_path w
      in case ensure_file_exists db_path w of
           Inl e \<Rightarrow> (Inl e, w)
         | Inr w1 \<Rightarrow>
             (let (f, w2) = open_a db_path w1;
                  f1 = fwrite f (dump_ascii (to_json_obj pl));
                  f2 = fwrite f1 [10];
                  (f3, w3) = fflush f2 w2;
                  w4 = fsync f3 w3;
                  w5 = fclose f3 w4;
                  w6 = cprint check_mark
                         (ustr ''Playlist '' @ [39] @ playlistName pl @ [39] @
                          ustr '' appended to '' @ db_path) quiet w5
              in (Inr db_path, w6)))"

definition export_freetube_json ::
  "FreeTubePlaylist \<Rightarrow> ustr \<Rightarrow> bool \<Rightarrow> bool \<Rightarrow> world \<Rightarrow> ustr \<times> world" where
  "export_freetube_json pl out_path pretty quiet w =
     (let path = or_str out_path (sanitize_name (playlistName pl) @ ustr ''.freetube.json'');
          w1 = write_file path (dump_unicode pretty (to_json_obj pl)) w;
          w2 = cprint check_mark (ustr ''Wrote FreeTube JSON: '' @ path) quiet w1
      in (path, w2))"

text \<open>
  The dictionary of one playlist in the Piped format. The source spells this literal out
  in \<open>export_piped_json\<close> and in \<open>export_piped_json_split\<close>, with the same keys and the
  same URL prefix, which has no \<open>www.\<close> in either.
\<close>

definition piped_playlist :: "ustr \<Rightarrow> ustr list \<Rightarrow> json" where
  "piped_playlist name vids =
     JObj [(ustr ''name'', JStr name),
           (ustr ''type'', JStr (ustr ''playlist'')),
           (ustr ''visibility'', JStr (ustr ''private'')),
           (ustr ''videos'', JArr (map (\<lambda>v. JStr (ustr ''https://youtube.com/watch?v='' @ v)) vids))]"

definition piped_payload :: "(ustr \<times> ustr list) list \<Rightarrow> json" where
  "piped_payload playlists =
     JObj [(ustr ''format'', JStr (ustr ''Piped'')),
           (ustr ''version'', JInt 1),
           (ustr ''playlists'', JArr (map (\<lambda>(name, vids). piped_playlist name vids) playlists))]"

definition export_piped_json ::
  "(ustr \<times> ustr list) list \<Rightarrow> ustr option \<Rightarrow> bool \<Rightarrow> bool \<Rightarrow> world \<Rightarrow> ustr \<times> world" where
  "export_piped_json playlists out_path pretty quiet w =
     (let payload = piped_payload playlists;
          path = or_else out_path (ustr ''piped.json'');
          w1 = write_file path (dump_unicode pretty payload) w;
          w2 = cprint check_mark (ustr ''Wrote Piped JSON: '' @ path) quiet w1
      in (path, w2))"

text \<open>\<open>f"{n:03}"\<close>: the decimal digits of \<open>n\<close>, padded with zeros to three characters.\<close>

definition fmt03 :: "nat \<Rightarrow> ustr" where
  "fmt03 n = replicate (3 - length (dec n)) 48 @ dec n"

text \<open>
  The inner loop of \<open>export_piped_json_split\<close> for a step \<open>split > 0\<close>, from the index \<open>i\<close>
  of \<open>range(0, len(vids), split)\<close> on. It returns the number of files written with the
  world.
\<close>

definition arrow :: ustr where
  "arrow = [32, 32, 8594, 32]"

function write_chunks ::
  "bool \<Rightarrow> bool \<Rightarrow> ustr \<Rightarrow> ustr \<Rightarrow> ustr \<Rightarrow> ustr list \<Rightarrow> nat \<Rightarrow> nat \<Rightarrow> nat \<Rightarrow> world
     \<Rightarrow> nat \<times> world" where
  "write_chunks pretty quiet base outdir name vids split i n w =
     (if split = 0 \<or> length vids \<le> i then (n, w)
      else
        (let chunk = take split (drop i vids);
             payload = JObj [(ustr ''format'', JStr (ustr ''Piped'')),
                             (ustr ''version'', JInt 1),
                             (ustr ''playlists'', JArr [piped_playlist name chunk])];
             out_name = base @ [95] @ sanitize_name name @ [95] @ fmt03 (i div split + 1) @
                        ustr ''.json'';
             path = path_join outdir out_name;
             w1 = write_file path (dump_unicode pretty payload) w;
             w2 = (if quiet then w1
                   else print (arrow @ path @ ustr '' ('' @ dec (length chunk) @
                               ustr '' videos)'') w1)
         in write_chunks pretty quiet base outdir name vids split (i + split) (n + 1) w2))"
  by pat_completeness auto
termination
  by (relation "measure (\<lambda>(pretty, quiet, base, outdir, name, vids, split, i, n, w).
        length vids - i)") auto

declare write_chunks.simps [simp del]

text \<open>
  The outer loop. \<open>range(0, n, 0)\<close> raises \<open>ValueError\<close>, and a negative step gives the
  empty range.
\<close>

fun split_playlists ::
  "bool \<Rightarrow> bool \<Rightarrow> ustr \<Rightarrow> ustr \<Rightarrow> int \<Rightarrow> (ustr \<times> ustr list) list \<Rightarrow> nat \<Rightarrow> world
     \<Rightarrow> (error + nat) \<times> world" where
  "split_playlists pretty quiet base outdir split [] n w = (Inr n, w)"
| "split_playlists pretty quiet base outdir split ((name, vids) # playlists) n w =
     (if split = 0 then (Inl ValueError, w)
      else if split < 0 then split_playlists pretty quiet base outdir split playlists n w
      else (let (n', w1) =
                  write_chunks pretty quiet base outdir name vids (nat split) 0 n w
            in split_playlists pretty quiet base outdir split playlists n' w1))"

definition export_piped_json_split ::
  "(ustr \<times> ustr list) list \<Rightarrow> ustr \<Rightarrow> int \<Rightarrow> ustr option \<Rightarrow> bool \<Rightarrow> bool \<Rightarrow> world
     \<Rightarrow> (error + ustr) \<times> world" where
  "export_piped_json_split playlists base_out split split_dir pretty quiet w =
     (let base = fst (splitext (basename (or_str base_out (ustr ''piped.json''))));
          outdir = or_else split_dir (path_join (ustr ''chunks'') base);
          w1 = makedirs outdir w
      in case split_playlists pretty quiet base outdir split playlists 0 w1 of
           (Inl e, w2) \<Rightarrow> (Inl e, w2)
         | (Inr n, w2) \<Rightarrow>
             (Inr outdir,
              cprint check_mark
                (ustr ''Split Piped JSON finished: '' @ dec n @ ustr '' files in '' @ outdir)
                quiet w2))"

text \<open>
  \<open>csv.writer(f, delimiter=",", quotechar='"', lineterminator="\r\n")\<close> has the default
  quoting, \<open>QUOTE_MINIMAL\<close>: a field is put in quotes, with its quotes doubled, when it
  contains the delimiter, the quote character or a character of the line terminator,
  and is written as it is otherwise.
\<close>

definition csv_special :: "nat \<Rightarrow> bool" where
  "csv_special c \<longleftrightarrow> c = 44 \<or> c = 34 \<or> c = 13 \<or> c = 10"

definition csv_field :: "ustr \<Rightarrow> ustr" where
  "csv_field s =
     (if list_ex csv_special s
      then 34 # concat (map (\<lambda>c. if c = 34 then [34, 34] else [c]) s) @ [34]
      else s)"

definition writerow :: "ustr list \<Rightarrow> ustr" where
  "writerow row = join [44] (map csv_field row) @ [13, 10]"

definition export_piped_csv :: "ustr list \<Rightarrow> ustr option \<Rightarrow> bool \<Rightarrow> world \<Rightarrow> ustr \<times> world" where
  "export_piped_csv video_ids out_path quiet w =
     (let path = or_else out_path (ustr ''piped.csv'');
          body = writerow [ustr ''videoId'', ustr ''addedAt''] @
                 concat (map (\<lambda>vid. writerow [vid, []]) video_ids);
          w1 = write_file path body w;
          w2 = cprint check_mark (ustr ''Wrote Piped CSV: '' @ path) quiet w1
      in (path, w2))"

definition export_urls :: "ustr list \<Rightarrow> ustr option \<Rightarrow> bool \<Rightarrow> world \<Rightarrow> ustr \<times> world" where
  "export_urls video_ids out_path quiet w =
     (let path = or_else out_path (ustr ''urls.txt'');
          body = concat (map (\<lambda>vid. ustr ''https://www.youtube.com/watch?v='' @ vid @ [10])
                           video_ids);
          w1 = write_file path body w;
          w2 = cprint check_mark (ustr ''Wrote URL list: '' @ path) quiet w1
      in (path, w2))"

definition export_ids :: "ustr list \<Rightarrow> ustr option \<Rightarrow> bool \<Rightarrow> world \<Rightarrow> ustr \<times> world" where
  "export_ids video_ids out_path quiet w =
     (let path = or_else out_path (ustr ''ids.txt'');
          body = concat (map (\<lambda>vid. vid @ [10]) video_ids);
          w1 = write_file path body w;
          w2 = cprint check_mark (ustr ''Wrote ID list: '' @ path) quiet w1
      in (path, w2))"

fun json_of :: "pyval \<Rightarrow> json" where
  "json_of PNone = JNull"
| "json_of (PBool b) = JBool b"
| "json_of (PInt i) = JInt i"
| "json_of (PFloat r t) = JFloat r"
| "json_of (PStr s) = JStr s"

definition export_newpipe_subscriptions ::
  "(ustr \<times> pyval) list \<Rightarrow> ustr \<Rightarrow> ustr \<Rightarrow> int \<Rightarrow> bool \<Rightarrow> bool \<Rightarrow> world \<Rightarrow> world" where
  "export_newpipe_subscriptions subs out_path app_ver app_ver_int pretty quiet w =
     (let payload =
            JObj [(ustr ''app_version'', JStr app_ver),
                  (ustr ''app_version_int'', JInt app_ver_int),
                  (ustr ''subscriptions'',
                   JArr (map (\<lambda>(url, name).
                           JObj [(ustr ''service_id'', JInt 0), (ustr ''url'', JStr url),
                                 (ustr ''name'', json_of name)]) subs))];
          w1 = write_file out_path (dump_unicode pretty payload) w
      in cprint check_mark
           (ustr ''Wrote NewPipe subscriptions: '' @ out_path @ ustr '' ('' @
            dec (length subs) @ ustr '' channels)'') quiet w1)"

section \<open>Inputs\<close>

text \<open>
  \<open>YT_ID_RE.search(line)\<close>: the pattern has a fixed length of eleven characters, so the
  first match is at the first position where it matches.
\<close>

definition id_char :: "nat \<Rightarrow> bool" where
  "id_char c \<longleftrightarrow>
     (65 \<le> c \<and> c \<le> 90) \<or> (97 \<le> c \<and> c \<le> 122) \<or> (48 \<le> c \<and> c \<le> 57) \<or>
     c = 95 \<or> c = 45"

definition id_last :: "nat \<Rightarrow> bool" where
  "id_last c \<longleftrightarrow> c \<in> set (ustr ''AEIMQUYcgkosw048'')"

fun yt_id_search :: "ustr \<Rightarrow> ustr option" where
  "yt_id_search [] = None"
| "yt_id_search (c # cs) =
     (if 10 \<le> length cs \<and> list_all id_char (take 10 (c # cs)) \<and> id_last (cs ! 9)
      then Some (take 11 (c # cs))
      else yt_id_search cs)"

text \<open>
  The lines of a text: \<open>splitc P s\<close> cuts \<open>s\<close> at every character that satisfies \<open>P\<close>.
  Reading a text file line by line cuts it at LF, CR and CR LF; as every line is
  stripped and an empty line is skipped, cutting at every LF and every CR gives the same
  IDs.
\<close>

fun splitc :: "(nat \<Rightarrow> bool) \<Rightarrow> ustr \<Rightarrow> ustr list" where
  "splitc P [] = [[]]"
| "splitc P (c # cs) =
     (if P c then [] # splitc P cs
      else (case splitc P cs of [] \<Rightarrow> [[c]] | l # ls \<Rightarrow> (c # l) # ls))"

definition read_ids_file :: "ustr \<Rightarrow> world \<Rightarrow> error + ustr list" where
  "read_ids_file path w =
     (case files w path of
        None \<Rightarrow> Inl FileNotFoundError
      | Some f \<Rightarrow>
          Inr (List.map_filter
                 (\<lambda>raw. let line = strip raw
                        in if line = [] \<or> hd line = 35 then None else yt_id_search line)
                 (splitc (\<lambda>c. c = 10 \<or> c = 13) (content f))))"

section \<open>Main\<close>

datatype export_format =
  FreetubeDb | FreetubeJson | PipedJson | PipedCsv | Urls | Ids | NewpipeSubs

text \<open>
  The arguments as \<open>argparse\<close> delivers them. The options that only the extractor reads
  (\<open>--skip-authcheck\<close>, \<open>--sleep\<close>, \<open>--verbose\<close>) do not appear: the extractor is an
  oracle of the model. \<open>--export\<close> is one of the seven choices, so the last statement of
  \<open>main\<close>, for an unknown export type, is never reached.
\<close>

record args =
  arg_playlist_url :: "ustr list"
  arg_ids_file :: "ustr option"
  arg_name :: "ustr option"
  arg_description :: ustr
  arg_browser_cookies :: "ustr option"
  arg_cookies :: "ustr option"
  arg_export :: export_format
  arg_output :: "ustr option"
  arg_path :: "ustr option"
  arg_split :: "int option"
  arg_split_dir :: "ustr option"
  arg_pretty :: bool
  arg_newpipe_version :: ustr
  arg_newpipe_version_int :: int
  arg_quiet :: bool

text \<open>
  How a run ends: \<open>main\<close> returns (the process exits with status 0), \<open>sys.exit(n)\<close> is
  called, or an exception leaves \<open>main\<close>.
\<close>

datatype outcome = Returned | Exit nat | Uncaught error

text \<open>\<open>YTDLPClient.__init__\<close> raises when the cookie specification is not accepted.\<close>

definition client_init :: "env \<Rightarrow> ustr option \<Rightarrow> ustr option \<Rightarrow> error + unit" where
  "client_init env cookies_file browser_cookies =
     (if or_else cookies_file [] \<noteq> [] then Inr ()
      else if have_cookie_spec env (or_else browser_cookies (ustr ''firefox'')) then Inr ()
      else Inl ValueError)"

definition extract_playlist :: "env \<Rightarrow> ustr \<Rightarrow> world \<Rightarrow> (error + playlist_info) \<times> world" where
  "extract_playlist env url w =
     (let w1 = w\<lparr>fetches := Suc (fetches w)\<rparr>
      in case playlist env (fetches w) url of
           Raises \<Rightarrow> (Inl ExtractorError, w1)
         | Nothing \<Rightarrow> (Inl RuntimeError, w1)
         | Info info \<Rightarrow> (Inr info, w1))"

text \<open>The loop of \<open>main\<close> over the playlist URLs.\<close>

fun fetch_playlists ::
  "env \<Rightarrow> args \<Rightarrow> ustr list \<Rightarrow> FreeTubePlaylist list \<Rightarrow> world
     \<Rightarrow> (error + FreeTubePlaylist list) \<times> world" where
  "fetch_playlists env a [] pls w = (Inr pls, w)"
| "fetch_playlists env a (url # urls) pls w =
     (case extract_playlist env url w of
        (Inl e, w1) \<Rightarrow> (Inl e, w1)
      | (Inr info, w1) \<Rightarrow>
          (let name = (if length (arg_playlist_url a) = 1 \<and> or_else (arg_name a) [] \<noteq> []
                       then arg_name a else None);
               (ft, w2) = build_freetube_from_entries env info name (arg_description a) w1
           in fetch_playlists env a urls (pls @ [ft]) w2))"

fun export_all_db ::
  "env \<Rightarrow> args \<Rightarrow> FreeTubePlaylist list \<Rightarrow> world \<Rightarrow> outcome \<times> world" where
  "export_all_db env a [] w = (Returned, w)"
| "export_all_db env a (pl # pls) w =
     (case export_freetube_db env pl (arg_path a) (arg_quiet a) w of
        (Inl e, w1) \<Rightarrow> (Uncaught e, w1)
      | (Inr p, w1) \<Rightarrow> export_all_db env a pls w1)"

fun export_all_json :: "args \<Rightarrow> ustr \<Rightarrow> FreeTubePlaylist list \<Rightarrow> world \<Rightarrow> world" where
  "export_all_json a outdir [] w = w"
| "export_all_json a outdir (pl # pls) w =
     (let path = path_join outdir (sanitize_name (playlistName pl) @ ustr ''.json'')
      in export_all_json a outdir pls
           (snd (export_freetube_json pl path (arg_pretty a) (arg_quiet a) w)))"

definition piped_set :: "FreeTubePlaylist \<Rightarrow> ustr \<times> ustr list" where
  "piped_set ft = (playlistName ft, map videoId (videos ft))"

definition dispatch :: "env \<Rightarrow> args \<Rightarrow> FreeTubePlaylist list \<Rightarrow> world \<Rightarrow> outcome \<times> world" where
  "dispatch env a freetube_playlists w =
     (let piped_sets = map piped_set freetube_playlists;
          vids = concat (map snd piped_sets)
      in case arg_export a of
           FreetubeDb \<Rightarrow> export_all_db env a freetube_playlists w
         | FreetubeJson \<Rightarrow>
             (if length freetube_playlists = 1
              then (Returned,
                    snd (export_freetube_json (hd freetube_playlists) (or_else (arg_output a) [])
                           (arg_pretty a) (arg_quiet a) w))
              else (let outdir = or_else (arg_output a) (ustr ''freetube_json_playlists'')
                    in (Returned,
                        export_all_json a outdir freetube_playlists (makedirs outdir w))))
         | PipedJson \<Rightarrow>
             (case arg_split a of
                None \<Rightarrow>
                  (Returned,
                   snd (export_piped_json piped_sets
                          (Some (or_else (arg_output a) (ustr ''piped.json'')))
                          (arg_pretty a) (arg_quiet a) w))
              | Some n \<Rightarrow>
                  if n = 0
                  then (Returned,
                        snd (export_piped_json piped_sets
                               (Some (or_else (arg_output a) (ustr ''piped.json'')))
                               (arg_pretty a) (arg_quiet a) w))
                  else (case export_piped_json_split piped_sets
                               (or_else (arg_output a) (ustr ''piped.json'')) n
                               (arg_split_dir a) (arg_pretty a) (arg_quiet a) w of
                          (Inl e, w1) \<Rightarrow> (Uncaught e, w1)
                        | (Inr d, w1) \<Rightarrow> (Returned, w1)))
         | PipedCsv \<Rightarrow>
             (Returned,
              snd (export_piped_csv vids (Some (or_else (arg_output a) (ustr ''piped.csv'')))
                     (arg_quiet a) w))
         | Urls \<Rightarrow>
             (Returned,
              snd (export_urls vids (Some (or_else (arg_output a) (ustr ''urls.txt'')))
                     (arg_quiet a) w))
         | Ids \<Rightarrow>
             (Returned,
              snd (export_ids vids (Some (or_else (arg_output a) (ustr ''ids.txt'')))
                     (arg_quiet a) w))
         | NewpipeSubs \<Rightarrow>
             (Exit 2, cprint (ustr ''ERR: '') (ustr ''Unknown export type: newpipe-subs'') False w))"

definition main_subscriptions :: "env \<Rightarrow> args \<Rightarrow> world \<Rightarrow> outcome \<times> world" where
  "main_subscriptions env a w =
     (let w1 = cprint [8943, 32]
                 (ustr ''Fetching subscriptions via yt-dlp /feed/channels'' @ [8230])
                 (arg_quiet a) w
      in case fetch_subscriptions_via_ytdlp env (arg_browser_cookies a) (arg_cookies a) w1 of
           (Inl e, w2) \<Rightarrow>
             (Exit 1,
              cprint (ustr ''ERR: '') (ustr ''Failed to fetch subscriptions: '' @ exc_text env e)
                False w2)
         | (Inr subs, w2) \<Rightarrow>
             if subs = []
             then (Exit 2,
                   cprint (ustr ''WARN: '')
                     (ustr ''No subscriptions found '' @ [8212] @
                      ustr '' ensure cookies are logged in.'') (arg_quiet a) w2)
             else (Returned,
                   export_newpipe_subscriptions subs
                     (or_else (arg_output a) (ustr ''newpipe-subscriptions.json''))
                     (arg_newpipe_version a) (arg_newpipe_version_int a) (arg_pretty a)
                     (arg_quiet a) w2))"

definition main_ids ::
  "env \<Rightarrow> args \<Rightarrow> world \<Rightarrow> (outcome + FreeTubePlaylist list) \<times> world" where
  "main_ids env a w =
     (if or_else (arg_ids_file a) [] = [] then (Inr [], w)
      else (case read_ids_file (or_else (arg_ids_file a) []) w of
              Inl e \<Rightarrow> (Inl (Uncaught e), w)
            | Inr ids \<Rightarrow>
                if ids = []
                then (Inl (Exit 1),
                      cprint (ustr ''ERR: '') (ustr ''No valid YouTube IDs found.'') False w)
                else (let default_name =
                            or_str (or_else (arg_name a) [])
                              (or_str (fst (splitext (basename (or_else (arg_ids_file a) []))))
                                 (ustr ''Imported IDs ('' @ dec (length ids) @ ustr '')''));
                          (ft, w1) = build_freetube_from_ids env ids default_name
                                       (arg_description a) (arg_quiet a) w
                      in (Inr [ft], w1))))"

definition main :: "env \<Rightarrow> args \<Rightarrow> world \<Rightarrow> outcome \<times> world" where
  "main env a w =
     (if arg_export a = NewpipeSubs then main_subscriptions env a w
      else
        (let have_urls = (0 < length (arg_playlist_url a));
             have_ids = (or_else (arg_ids_file a) [] \<noteq> [])
         in if \<not> have_urls \<and> \<not> have_ids \<and> arg_export a \<noteq> NewpipeSubs
            then (Exit 0, print (help_text env) w)
            else if \<not> have_urls \<and> \<not> have_ids
            then (Exit 2,
                  cprint (ustr ''ERR: '')
                    (ustr ''Provide playlist URL(s) or --ids-file, or use -e newpipe-subs'')
                    False w)
            else
              (case client_init env (arg_cookies a) (arg_browser_cookies a) of
                 Inl e \<Rightarrow> (Uncaught e, w)
               | Inr u \<Rightarrow>
                   (case main_ids env a w of
                      (Inl out, w1) \<Rightarrow> (out, w1)
                    | (Inr from_ids, w1) \<Rightarrow>
                        (case fetch_playlists env a (arg_playlist_url a) from_ids w1 of
                           (Inl e, w2) \<Rightarrow> (Uncaught e, w2)
                         | (Inr freetube_playlists, w2) \<Rightarrow>
                             dispatch env a freetube_playlists w2)))))"

section \<open>Notions used in the statements\<close>

text \<open>
  These definitions are not functions of the program: they name what the properties below
  speak about.
\<close>

text \<open>The two replacements of \<open>clean_text\<close> as one function on characters.\<close>

definition repl :: "nat \<Rightarrow> nat" where
  "repl c = (if c = 160 then 32 else if c = 8228 then 46 else c)"

text \<open>The clock never runs backwards.\<close>

definition mono_clock :: "env \<Rightarrow> bool" where
  "mono_clock env \<longleftrightarrow> (\<forall>i j. i \<le> j \<longrightarrow> clock env i \<le> clock env j)"

text \<open>
  A sequence of \<open>add_video\<close> calls on one playlist. Before the call that appends \<open>v\<close>, the
  rest of the program reads the clock \<open>k\<close> times, for a pair \<open>(k, v)\<close> of the sequence.
\<close>

fun add_video_calls ::
  "env \<Rightarrow> FreeTubePlaylist \<Rightarrow> (nat \<times> FreeTubeVideo) list \<Rightarrow> world \<Rightarrow> FreeTubePlaylist \<times> world" where
  "add_video_calls env p [] w = (p, w)"
| "add_video_calls env p ((k, v) # ops) w =
     (let (p', w') = add_video env p v (w\<lparr>ticks := ticks w + k\<rparr>)
      in add_video_calls env p' ops w')"

text \<open>The world \<open>w\<close> after \<open>t\<close> readings of the clock and \<open>u\<close> identifiers drawn.\<close>

definition at_counts :: "world \<Rightarrow> nat \<Rightarrow> nat \<Rightarrow> world" where
  "at_counts w t u = w\<lparr>ticks := t, uuids := u\<rparr>"

text \<open>\<open>info.get("entries") or []\<close>\<close>

definition entries_of :: "playlist_info \<Rightarrow> pydict list" where
  "entries_of info = (case info_entries info of None \<Rightarrow> [] | Some es \<Rightarrow> es)"

text \<open>
  The record of \<open>FreeTubeVideo.placeholder\<close> when the clock is read for the \<open>t\<close>-th time
  and the \<open>u\<close>-th identifier is drawn: the ID, the defaults of the dataclass, and the two
  fresh values.
\<close>

definition placeholder_record :: "env \<Rightarrow> ustr \<Rightarrow> nat \<Rightarrow> nat \<Rightarrow> FreeTubeVideo" where
  "placeholder_record env vid t u =
     \<lparr>videoId = vid, title = ustr ''N/A'', author = ustr ''N/A'', authorId = ustr ''N/A'',
      lengthSeconds = 0, published = 0, timeAdded = clock env t, playlistItemId = uuid env u,
      type = ustr ''video''\<rparr>"

text \<open>
  The answer of the extractor can be mapped: it is a record that has an \<open>id\<close> and a title
  other than \<open>None\<close>.
\<close>

definition usable :: "pydict extracted \<Rightarrow> bool" where
  "usable r = (case r of Info d \<Rightarrow> d ''id'' \<noteq> None \<and> get d ''title'' \<noteq> PNone | _ \<Rightarrow> False)"

text \<open>
  The record for the ID \<open>vid\<close> when its extraction is the \<open>f\<close>-th, the clock is read for
  the \<open>t\<close>-th time and the \<open>u\<close>-th identifier is drawn.
\<close>

definition id_record :: "env \<Rightarrow> world \<Rightarrow> ustr \<Rightarrow> nat \<Rightarrow> nat \<Rightarrow> nat \<Rightarrow> FreeTubeVideo" where
  "id_record env w vid f t u =
     (case video env f vid of
        Info d \<Rightarrow> if usable (Info d) then fst (from_ytdlp_entry env d (at_counts w t u))
                   else placeholder_record env vid t u
      | _ \<Rightarrow> placeholder_record env vid t u)"



text \<open>
  The chunked export in the words of the spec: a playlist of \<open>n\<close> videos gives
  \<open>chunk_count N n\<close> files; file number \<open>k\<close> (from 0) is named \<open>chunk_name base name k\<close>
  and holds \<open>chunk_text pretty name vids N k\<close>, the Piped document of the \<open>N\<close> videos
  from position \<open>k * N\<close> on.
\<close>

definition chunk_count :: "nat \<Rightarrow> nat \<Rightarrow> nat" where
  "chunk_count N n = (n + N - 1) div N"

definition chunk_name :: "ustr \<Rightarrow> ustr \<Rightarrow> nat \<Rightarrow> ustr" where
  "chunk_name base name k =
     base @ [95] @ sanitize_name name @ [95] @ fmt03 (k + 1) @ ustr ''.json''"

definition chunk_text :: "bool \<Rightarrow> ustr \<Rightarrow> ustr list \<Rightarrow> nat \<Rightarrow> nat \<Rightarrow> ustr" where
  "chunk_text pretty name vids N k =
     dump_unicode pretty
       (JObj [(ustr ''format'', JStr (ustr ''Piped'')),
              (ustr ''version'', JInt 1),
              (ustr ''playlists'',
               JArr [JObj [(ustr ''name'', JStr name),
                           (ustr ''type'', JStr (ustr ''playlist'')),
                           (ustr ''visibility'', JStr (ustr ''private'')),
                           (ustr ''videos'',
                            JArr (map (\<lambda>v. JStr (ustr ''https://youtube.com/watch?v='' @ v))
                                    (take N (drop (k * N) vids))))]])])"

definition write_chunk ::
  "bool \<Rightarrow> bool \<Rightarrow> ustr \<Rightarrow> ustr \<Rightarrow> ustr \<Rightarrow> ustr list \<Rightarrow> nat \<Rightarrow> nat \<Rightarrow> world \<Rightarrow> world" where
  "write_chunk pretty quiet base outdir name vids N k w =
     (let path = path_join outdir (chunk_name base name k);
          w1 = write_file path (chunk_text pretty name vids N k) w
      in if quiet then w1
         else print (arrow @ path @ ustr '' ('' @ dec (length (take N (drop (k * N) vids))) @
                     ustr '' videos)'') w1)"

definition write_playlist_chunks ::
  "bool \<Rightarrow> bool \<Rightarrow> ustr \<Rightarrow> ustr \<Rightarrow> nat \<Rightarrow> world \<Rightarrow> ustr \<times> ustr list \<Rightarrow> world" where
  "write_playlist_chunks pretty quiet base outdir N w pl =
     foldl (\<lambda>w k. write_chunk pretty quiet base outdir (fst pl) (snd pl) N k w) w
       [0..<chunk_count N (length (snd pl))]"

text \<open>The base name and the directory that \<open>export_piped_json_split\<close> computes first.\<close>

definition chunk_base :: "ustr \<Rightarrow> ustr" where
  "chunk_base base_out = fst (splitext (basename (or_str base_out (ustr ''piped.json''))))"

definition chunk_dir :: "ustr \<Rightarrow> ustr option \<Rightarrow> ustr" where
  "chunk_dir base_out split_dir =
     or_else split_dir (path_join (ustr ''chunks'') (chunk_base base_out))"

text \<open>The number that a string of ASCII digits denotes.\<close>

definition undec :: "ustr \<Rightarrow> nat" where
  "undec s = foldl (\<lambda>a c. 10 * a + (c - 48)) 0 s"

section \<open>Example inputs\<close>

definition example_env :: env where
  "example_env =
     \<lparr>clock = (\<lambda>n. 1700000000000 + int n),
      uuid = (\<lambda>n. ustr ''uuid-'' @ dec n),
      video = (\<lambda>n v. if n = 1 then Info [''id'' \<mapsto> PStr v, ''title'' \<mapsto> PStr (ustr ''Song'')]
                      else Raises),
      playlist = (\<lambda>n u. Nothing),
      feed = (\<lambda>n. Info \<lparr>feed_entries = Some
                [Some [''channel_id'' \<mapsto> PStr (ustr ''UC1''), ''title'' \<mapsto> PStr (ustr ''One'')],
                 None,
                 Some [''title'' \<mapsto> PStr (ustr ''No id'')],
                 Some [''id'' \<mapsto> PStr (ustr ''UC2'')]]\<rparr>),
      have_cookie_spec = (\<lambda>s. True),
      help_text = ustr ''usage: ytft-export [-h] ...'',
      exc_text = (\<lambda>e. ustr ''error''),
      platform = ''linux'',
      home = ustr ''/home/u'',
      appdata = None\<rparr>"

definition example_world :: world where
  "example_world =
     \<lparr>ticks = 0, uuids = 0, fetches = 0, console = [], files = Map.empty,
      dirs = {ustr ''/home/u'', ustr ''/home/u/.config'', ustr ''/home/u/.config/FreeTube''}\<rparr>"

definition example_video :: FreeTubeVideo where
  "example_video = placeholder_record example_env (ustr ''dQw4w9WgXcQ'') 0 0"

definition example_info :: playlist_info where
  "example_info =
     \<lparr>info_title = PStr (ustr ''Mix''),
      info_entries = Some
        [[''id'' \<mapsto> PStr (ustr ''aaaaaaaaaaA''), ''title'' \<mapsto> PStr (ustr ''First'')],
         [''id'' \<mapsto> PStr [], ''title'' \<mapsto> PStr (ustr ''Second'')],
         [''id'' \<mapsto> PStr (ustr ''ccccccccccE''), ''title'' \<mapsto> PStr (ustr ''Third'')]]\<rparr>"

definition example_ids :: "ustr list" where
  "example_ids = [ustr ''v1'', ustr ''v2'', ustr ''v3'', ustr ''v4'', ustr ''v5'', ustr ''v6'',
     ustr ''v7'']"

definition example_args :: args where
  "example_args =
     \<lparr>arg_playlist_url = [], arg_ids_file = None, arg_name = None, arg_description = [],
      arg_browser_cookies = None, arg_cookies = None, arg_export = FreetubeDb,
      arg_output = None, arg_path = None, arg_split = None, arg_split_dir = None,
      arg_pretty = False, arg_newpipe_version = ustr ''0.19.8'', arg_newpipe_version_int = 953,
      arg_quiet = False\<rparr>"

section \<open>Reading the database back\<close>

text \<open>
  The database is read line by line with a JSON reader. \<open>loads\<close> is \<open>json.loads\<close> of
  CPython: white space is space, tab, LF and CR; a value is a string, an object, an
  array, \<open>null\<close>, \<open>true\<close>, \<open>false\<close>, \<open>NaN\<close>, \<open>Infinity\<close>, \<open>-Infinity\<close> or a number;
  nothing but white space may follow the value. A number with a fraction or an exponent
  is kept as the text of a float.
\<close>

definition is_ws :: "nat \<Rightarrow> bool" where
  "is_ws c \<longleftrightarrow> c = 32 \<or> c = 9 \<or> c = 10 \<or> c = 13"

definition skip_ws :: "ustr \<Rightarrow> ustr" where
  "skip_ws s = dropWhile is_ws s"

text \<open>
  Strings: a character below space is refused, a backslash starts an escape, and
  \<open>\uXXXX\<close> has four hexadecimal digits. A high surrogate that is followed by the escape
  of a low surrogate is joined with it into one character; any other surrogate stands
  alone.
\<close>

definition hex_val :: "nat \<Rightarrow> nat option" where
  "hex_val c =
     (if 48 \<le> c \<and> c \<le> 57 then Some (c - 48)
      else if 97 \<le> c \<and> c \<le> 102 then Some (c - 87)
      else if 65 \<le> c \<and> c \<le> 70 then Some (c - 55)
      else None)"

definition hex4 :: "ustr \<Rightarrow> nat option" where
  "hex4 s =
     (case map hex_val s of
        [Some a, Some b, Some c, Some d] \<Rightarrow> Some (4096 * a + 256 * b + 16 * c + d)
      | _ \<Rightarrow> None)"

definition is_high :: "nat \<Rightarrow> bool" where
  "is_high n \<longleftrightarrow> 55296 \<le> n \<and> n \<le> 56319"

definition is_low :: "nat \<Rightarrow> bool" where
  "is_low n \<longleftrightarrow> 56320 \<le> n \<and> n \<le> 57343"

definition pair_char :: "nat \<Rightarrow> nat \<Rightarrow> nat" where
  "pair_char h l = 65536 + (h - 55296) * 1024 + (l - 56320)"

definition unescape :: "nat \<Rightarrow> nat option" where
  "unescape e =
     (if e = 34 then Some 34 else if e = 92 then Some 92 else if e = 47 then Some 47
      else if e = 98 then Some 8 else if e = 102 then Some 12 else if e = 110 then Some 10
      else if e = 114 then Some 13 else if e = 116 then Some 9 else None)"

fun scanstring :: "ustr \<Rightarrow> ustr \<Rightarrow> (ustr \<times> ustr) option" where
  "scanstring acc [] = None"
| "scanstring acc (c # r) =
     (if c = 34 then Some (acc, r)
      else if c = 92 then
        (case r of
           [] \<Rightarrow> None
         | e # r' \<Rightarrow>
             if e = 117 then
               (case hex4 (take 4 r') of
                  None \<Rightarrow> None
                | Some n \<Rightarrow>
                    if is_high n \<and> take 2 (drop 4 r') = [92, 117] then
                      (case hex4 (take 4 (drop 6 r')) of
                         None \<Rightarrow> None
                       | Some n2 \<Rightarrow>
                           if is_low n2 then scanstring (acc @ [pair_char n n2]) (drop 10 r')
                           else scanstring (acc @ [n]) (drop 4 r'))
                    else scanstring (acc @ [n]) (drop 4 r'))
             else (case unescape e of
                     None \<Rightarrow> None
                   | Some x \<Rightarrow> scanstring (acc @ [x]) r'))
      else if c < 32 then None
      else scanstring (acc @ [c]) r)"

declare scanstring.simps [simp del]

text \<open>
  Numbers: an optional minus, then \<open>0\<close> or a digit string without leading zero, then
  an optional fraction and an optional exponent, each taken only when its digits are
  there.
\<close>

definition is_dig :: "nat \<Rightarrow> bool" where
  "is_dig c \<longleftrightarrow> 48 \<le> c \<and> c \<le> 57"

definition scan_number :: "ustr \<Rightarrow> (json \<times> ustr) option" where
  "scan_number s =
     (let neg = (s \<noteq> [] \<and> hd s = 45);
          s1 = (if neg then tl s else s);
          ds = takeWhile is_dig s1;
          r1 = dropWhile is_dig s1;
          fs = (if r1 \<noteq> [] \<and> hd r1 = 46 then takeWhile is_dig (tl r1) else []);
          r2 = (if fs = [] then r1 else dropWhile is_dig (tl r1));
          sg = (if r2 \<noteq> [] \<and> (hd r2 = 101 \<or> hd r2 = 69) \<and> tl r2 \<noteq> [] \<and>
                   (hd (tl r2) = 43 \<or> hd (tl r2) = 45) then [hd (tl r2)] else []);
          es = (if r2 \<noteq> [] \<and> (hd r2 = 101 \<or> hd r2 = 69)
                then takeWhile is_dig (drop (Suc (length sg)) r2) else []);
          r3 = (if es = [] then r2 else dropWhile is_dig (drop (Suc (length sg)) r2))
      in if ds = [] \<or> (1 < length ds \<and> hd ds = 48) then None
         else if fs = [] \<and> es = []
              then Some (JInt (if neg then - int (undec ds) else int (undec ds)), r1)
              else Some (JFloat (take (length s - length r3) s), r3))"

definition starts :: "string \<Rightarrow> ustr \<Rightarrow> bool" where
  "starts lit s \<longleftrightarrow> take (length lit) s = ustr lit"

text \<open>
  Values. The first argument bounds the number of nested calls; \<open>loads\<close> starts with
  the length of the text plus one, which is more than any line of the database needs
  (lemma \<open>need_le_length\<close>).
\<close>

fun scan_value :: "nat \<Rightarrow> ustr \<Rightarrow> (json \<times> ustr) option"
  and scan_array :: "nat \<Rightarrow> json list \<Rightarrow> ustr \<Rightarrow> (json \<times> ustr) option"
  and scan_object :: "nat \<Rightarrow> (ustr \<times> json) list \<Rightarrow> ustr \<Rightarrow> (json \<times> ustr) option" where
  "scan_value 0 s = None"
| "scan_value (Suc n) s =
     (if s = [] then None
      else if hd s = 34 then
        (case scanstring [] (tl s) of None \<Rightarrow> None | Some (t, r) \<Rightarrow> Some (JStr t, r))
      else if hd s = 123 then
        (let r = skip_ws (tl s)
         in if r \<noteq> [] \<and> hd r = 125 then Some (JObj [], tl r) else scan_object n [] r)
      else if hd s = 91 then
        (let r = skip_ws (tl s)
         in if r \<noteq> [] \<and> hd r = 93 then Some (JArr [], tl r) else scan_array n [] r)
      else if starts ''null'' s then Some (JNull, drop 4 s)
      else if starts ''true'' s then Some (JBool True, drop 4 s)
      else if starts ''false'' s then Some (JBool False, drop 5 s)
      else if starts ''NaN'' s then Some (JFloat (ustr ''nan''), drop 3 s)
      else if starts ''Infinity'' s then Some (JFloat (ustr ''inf''), drop 8 s)
      else if starts ''-Infinity'' s then Some (JFloat (ustr ''-inf''), drop 9 s)
      else scan_number s)"
| "scan_array 0 acc s = None"
| "scan_array (Suc n) acc s =
     (case scan_value n s of
        None \<Rightarrow> None
      | Some (v, r) \<Rightarrow>
          (let r1 = skip_ws r
           in if r1 \<noteq> [] \<and> hd r1 = 93 then Some (JArr (acc @ [v]), tl r1)
              else if r1 \<noteq> [] \<and> hd r1 = 44 then scan_array n (acc @ [v]) (skip_ws (tl r1))
              else None))"
| "scan_object 0 acc s = None"
| "scan_object (Suc n) acc s =
     (if s = [] \<or> hd s \<noteq> 34 then None
      else
        (case scanstring [] (tl s) of
           None \<Rightarrow> None
         | Some (k, r) \<Rightarrow>
             (let r1 = skip_ws r
              in if r1 = [] \<or> hd r1 \<noteq> 58 then None
                 else
                   (case scan_value n (skip_ws (tl r1)) of
                      None \<Rightarrow> None
                    | Some (v, r2) \<Rightarrow>
                        (let r3 = skip_ws r2
                         in if r3 \<noteq> [] \<and> hd r3 = 125 then Some (JObj (acc @ [(k, v)]), tl r3)
                            else if r3 \<noteq> [] \<and> hd r3 = 44
                            then scan_object n (acc @ [(k, v)]) (skip_ws (tl r3))
                            else None)))))"

definition loads :: "ustr \<Rightarrow> json option" where
  "loads s =
     (case scan_value (Suc (length s)) (skip_ws s) of
        None \<Rightarrow> None
      | Some (v, r) \<Rightarrow> if skip_ws r = [] then Some v else None)"

text \<open>
  What the reader makes of the text of a string \<open>s\<close> written with \<open>ensure_ascii\<close>:
  \<open>comb s\<close>, which is \<open>s\<close> with every high surrogate joined to a low surrogate that
  follows it (and a character beyond U+FFFF put together again from its two escapes).
  \<open>jcomb\<close> does this to every string of a value.
\<close>

definition hi_unit :: "nat \<Rightarrow> nat" where
  "hi_unit c = 55296 + (c - 65536) div 1024 mod 1024"

definition lo_unit :: "nat \<Rightarrow> nat" where
  "lo_unit c = 56320 + (c - 65536) mod 1024"

fun comb :: "ustr \<Rightarrow> ustr" where
  "comb [] = []"
| "comb (c # r) =
     (if 65536 \<le> c then pair_char (hi_unit c) (lo_unit c) # comb r
      else if is_high c then
        (case r of
           [] \<Rightarrow> [c]
         | l # r' \<Rightarrow> if is_low l then pair_char c l # comb r' else c # comb r)
      else c # comb r)"

text \<open>Auxiliary notions of the proofs about the reader.\<close>

definition hexs :: "nat \<Rightarrow> ustr" where
  "hexs n = drop 2 (u_escape n)"

definition no_low_escape :: "ustr \<Rightarrow> bool" where
  "no_low_escape t \<longleftrightarrow>
     take 2 t \<noteq> [92, 117] \<or> (\<exists>n2. hex4 (take 4 (drop 2 t)) = Some n2 \<and> \<not> is_low n2)"

definition esc :: "ustr \<Rightarrow> ustr" where
  "esc s = concat (map escape_ascii s)"

fun jcomb :: "json \<Rightarrow> json" where
  "jcomb (JStr s) = JStr (comb s)"
| "jcomb (JArr vs) = JArr (map jcomb vs)"
| "jcomb (JObj kvs) = JObj (map (\<lambda>kv. (comb (fst kv), jcomb (snd kv))) kvs)"
| "jcomb v = v"

fun plain :: "json \<Rightarrow> bool" where
  "plain (JFloat r) = False"
| "plain (JArr vs) = list_all plain vs"
| "plain (JObj kvs) = list_all (\<lambda>kv. plain (snd kv)) kvs"
| "plain v = True"

fun need :: "json \<Rightarrow> nat" where
  "need (JArr vs) = Suc (sum_list (map (\<lambda>v. Suc (need v)) vs))"
| "need (JObj kvs) = Suc (sum_list (map (\<lambda>kv. Suc (need (snd kv))) kvs))"
| "need v = 1"

definition delim :: "ustr \<Rightarrow> bool" where
  "delim rest \<longleftrightarrow> rest = [] \<or> hd rest = 44 \<or> hd rest = 93 \<or> hd rest = 125"

definition starter :: "nat \<Rightarrow> bool" where
  "starter c \<longleftrightarrow> c = 34 \<or> c = 123 \<or> c = 91 \<or> c = 110 \<or> c = 116 \<or> c = 102 \<or> c = 45 \<or> is_dig c"

definition reads_back :: "nat \<Rightarrow> json \<Rightarrow> bool" where
  "reads_back l v \<longleftrightarrow>
     plain v \<and>
     (\<forall>fuel rest. need v \<le> fuel \<longrightarrow> delim rest \<longrightarrow>
        scan_value fuel (encode True None l v @ rest) = Some (jcomb v, rest))"

definition member :: "nat \<Rightarrow> ustr \<times> json \<Rightarrow> ustr" where
  "member l kv = encode_str True (fst kv) @ key_separator None @ encode True None l (snd kv)"

definition printable :: "nat \<Rightarrow> bool" where
  "printable c \<longleftrightarrow> 32 \<le> c \<and> c \<le> 126"

text \<open>
  A string of Unicode scalar values (no surrogate code points, nothing beyond
  U+10FFFF), and a value all of whose strings and keys are such.
\<close>

definition scalar :: "nat \<Rightarrow> bool" where
  "scalar c \<longleftrightarrow> c < 1114112 \<and> \<not> (55296 \<le> c \<and> c \<le> 57343)"

fun valid_json :: "json \<Rightarrow> bool" where
  "valid_json (JStr s) = list_all scalar s"
| "valid_json (JArr vs) = list_all valid_json vs"
| "valid_json (JObj kvs) = list_all (\<lambda>kv. list_all scalar (fst kv) \<and> valid_json (snd kv)) kvs"
| "valid_json v = True"

text \<open>The lines of a text file, without their terminators.\<close>

definition file_lines :: "ustr \<Rightarrow> ustr list" where
  "file_lines s =
     (let ls = splitc (\<lambda>c. c = 10) s in if last ls = [] then butlast ls else ls)"

text \<open>
  \<open>parent_dir p\<close> is the directory that \<open>ensure_file_exists\<close> tests, \<open>db_line pl\<close> the
  line that \<open>export_freetube_db\<close> writes for a playlist, and \<open>appended w p s\<close> the world
  \<open>w\<close> after \<open>s\<close> has been appended to the file \<open>p\<close> and forced to storage.
\<close>

definition parent_dir :: "ustr \<Rightarrow> ustr" where
  "parent_dir p = (if dirname p \<noteq> [] then dirname p else ustr ''.'')"

definition db_line :: "FreeTubePlaylist \<Rightarrow> ustr" where
  "db_line pl = dump_ascii (to_json_obj pl) @ [10]"

definition appended :: "world \<Rightarrow> ustr \<Rightarrow> ustr \<Rightarrow> world" where
  "appended w p s =
     w\<lparr>files := (files w)(p \<mapsto> \<lparr>content = content (stored w p) @ s,
                                   durable = content (stored w p) @ s\<rparr>)\<rparr>"

text \<open>Two playlists for the examples; the name of the second is U+00C9, LF.\<close>

definition example_playlist :: FreeTubePlaylist where
  "example_playlist =
     \<lparr>playlistName = ustr ''Mix'', protected = False, description = [],
      videos = [example_video], playlist_id = ustr ''ft-playlist--uuid-0'',
      createdAt = 1700000000000, lastUpdatedAt = 1700000000001\<rparr>"

definition example_playlist2 :: FreeTubePlaylist where
  "example_playlist2 =
     \<lparr>playlistName = [201, 10], protected = False, description = [],
      videos = [], playlist_id = ustr ''ft-playlist--uuid-1'',
      createdAt = 1700000000002, lastUpdatedAt = 1700000000002\<rparr>"


section \<open>Properties of the text helpers\<close>

lemma set_strip: "set (strip s) \<subseteq> set s"
proof
  fix c assume "c \<in> set (strip s)"
  then have "c \<in> set (dropWhile is_space (rev (dropWhile is_space s)))"
    by (simp add: strip_def)
  then have "c \<in> set (rev (dropWhile is_space s))" by (rule set_dropWhileD)
  then have "c \<in> set (dropWhile is_space s)" by simp
  then show "c \<in> set s" by (rule set_dropWhileD)
qed

lemma strip_Nil: "strip [] = []"
  by (simp add: strip_def)

lemma strip_id:
  assumes "s = [] \<or> (\<not> is_space (hd s) \<and> \<not> is_space (last s))"
  shows "strip s = s"
proof (cases s)
  case Nil then show ?thesis by (simp add: strip_def)
next
  case (Cons a t)
  with assms have h: "\<not> is_space (hd s)" and l: "\<not> is_space (last s)" by auto
  from h Cons have 1: "dropWhile is_space s = s" by simp
  from l have "\<not> is_space (hd (rev s))" by (simp add: hd_rev)
  then have 2: "dropWhile is_space (rev s) = rev s" by (simp add: dropWhile_eq_self_iff)
  show ?thesis by (simp add: strip_def 1 2)
qed

lemma strip_ends:
  "strip s = [] \<or> (\<not> is_space (hd (strip s)) \<and> \<not> is_space (last (strip s)))"
proof -
  let ?a = "dropWhile is_space s"
  let ?b = "dropWhile is_space (rev ?a)"
  show ?thesis
  proof (cases "?b = []")
    case True then show ?thesis by (simp add: strip_def)
  next
    case False
    then have nb: "\<not> is_space (hd ?b)" by (rule hd_dropWhile)
    from False have "rev ?a \<noteq> []" by (metis dropWhile.simps(1))
    then have an: "?a \<noteq> []" by (simp only: rev_is_Nil_conv not_False_eq_True)
    then have na: "\<not> is_space (hd ?a)" by (rule hd_dropWhile)
    have "rev ?a = takeWhile is_space (rev ?a) @ ?b" by simp
    then have "rev (rev ?a) = rev (takeWhile is_space (rev ?a) @ ?b)" by (rule arg_cong)
    then have "?a = rev ?b @ rev (takeWhile is_space (rev ?a))"
      by (simp only: rev_append rev_rev_ident)
    then have "hd ?a = hd (rev ?b @ rev (takeWhile is_space (rev ?a)))" by (rule arg_cong)
    also have "\<dots> = hd (rev ?b)"
      using False by (simp only: hd_append2 rev_is_Nil_conv not_False_eq_True)
    finally have "\<not> is_space (hd (rev ?b))" using na by simp
    moreover have "last (rev ?b) = hd ?b" using False by (simp add: last_rev)
    ultimately show ?thesis using nb by (simp add: strip_def)
  qed
qed

lemma strip_strip: "strip (strip s) = strip s"
  by (rule strip_id) (rule strip_ends)

lemma clean_text_chars:
  "c \<in> set (clean_text (PStr x)) \<Longrightarrow> \<not> ZERO_WIDTH c \<and> c \<noteq> 160 \<and> c \<noteq> 8228"
  by (auto simp: replace_char_def)

lemma clean_text_again:
  "clean_text (PStr (clean_text (PStr x))) = strip (clean_text (PStr x))"
proof -
  define y where "y = clean_text (PStr x)"
  have s: "\<And>c. c \<in> set (strip y) \<Longrightarrow> \<not> ZERO_WIDTH c \<and> c \<noteq> 160 \<and> c \<noteq> 8228"
    using set_strip[of y] clean_text_chars[of _ x] unfolding y_def by blast
  have 1: "replace_char 160 32 (strip y) = strip y"
    unfolding replace_char_def by (rule map_idI) (use s in auto)
  have 2: "replace_char 8228 46 (strip y) = strip y"
    unfolding replace_char_def by (rule map_idI) (use s in auto)
  have 3: "filter (\<lambda>c. \<not> ZERO_WIDTH c) (strip y) = strip y"
    using s by (simp add: filter_id_conv)
  have "clean_text (PStr y) = filter (\<lambda>c. \<not> ZERO_WIDTH c)
       (replace_char 8228 46 (replace_char 160 32 (strip y)))" by simp
  then show ?thesis unfolding y_def[symmetric] by (simp only: 1 2 3)
qed

lemma replace_both: "replace_char 8228 46 (replace_char 160 32 s) = map repl s"
  by (simp add: replace_char_def repl_def)

lemma repl_not_space: "\<not> is_space c \<Longrightarrow> \<not> is_space (repl c)"
  by (simp add: is_space_def repl_def)

lemma repl_zw: "ZERO_WIDTH (repl c) = ZERO_WIDTH c"
  by (simp add: ZERO_WIDTH_def repl_def)

lemma clean_text_stripped:
  assumes a: "\<forall>c\<in>set x. \<not> ZERO_WIDTH c"
  shows "strip (clean_text (PStr x)) = clean_text (PStr x)"
proof -
  have nz: "\<And>c. c \<in> set (map repl (strip x)) \<Longrightarrow> \<not> ZERO_WIDTH c"
    using a set_strip[of x] by (auto simp: repl_zw)
  have "clean_text (PStr x) = filter (\<lambda>c. \<not> ZERO_WIDTH c) (map repl (strip x))"
    by (simp add: replace_both)
  also have "\<dots> = map repl (strip x)"
    using nz by (simp only: filter_id_conv) blast
  finally have c: "clean_text (PStr x) = map repl (strip x)" .
  show ?thesis
  proof (cases "strip x = []")
    case True
    then have "clean_text (PStr x) = []" by (simp only: c list.map)
    then show ?thesis by (simp add: strip_Nil)
  next
    case False
    then have "\<not> is_space (hd (strip x)) \<and> \<not> is_space (last (strip x))"
      using strip_ends[of x] by blast
    then have "\<not> is_space (hd (map repl (strip x))) \<and>
               \<not> is_space (last (map repl (strip x)))"
      using False by (simp add: hd_map last_map repl_not_space)
    then have "strip (map repl (strip x)) = map repl (strip x)"
      by (intro strip_id) simp
    then show ?thesis by (simp only: c)
  qed
qed

lemma clean_text_no_zero_width:
  "c \<in> set (clean_text (PStr x)) \<Longrightarrow> \<not> (8203 \<le> c \<and> c \<le> 8207) \<and> c \<noteq> 65279"
  using clean_text_chars[of c x] by (simp add: ZERO_WIDTH_def)

text \<open>
  C3: \<open>clean_text\<close> is to be idempotent, and the code is not. It strips the white space
  first and removes the zero-width characters afterwards, so white space that a
  zero-width character shields from \<open>strip\<close> is left at the end of the result. For the
  string U+200B, space, \<open>x\<close> the first application gives space, \<open>x\<close> and the second gives
  \<open>x\<close>. The callers count on a stripped result: for the ID U+200B, space, U+200B the
  result is one space, which is not empty, so \<open>build_freetube_from_entries\<close> keeps the
  entry.
\<close>

theorem clean_text_not_idempotent:
  "clean_text (PStr (clean_text (PStr [8203, 32, 120]))) \<noteq> clean_text (PStr [8203, 32, 120]) \<and>
   clean_text (PStr [8203, 32, 120]) = [32, 120] \<and>
   clean_text (PStr (clean_text (PStr [8203, 32, 120]))) = [120] \<and>
   clean_text (PStr [8203, 32, 8203]) = [32] \<and>
   keeps [''id'' \<mapsto> PStr [8203, 32, 8203]]"
  by (simp add: keeps_def get_def py_or_def strip_def replace_char_def is_space_def
      ZERO_WIDTH_def)

section \<open>Properties of the playlist record\<close>

lemma add_video_calls_inv:
  assumes m: "mono_clock env"
  shows "createdAt p \<le> lastUpdatedAt p \<Longrightarrow> createdAt p \<le> clock env (ticks w) \<Longrightarrow>
         add_video_calls env p ops w = (p', w') \<Longrightarrow>
         createdAt p' = createdAt p \<and> createdAt p' \<le> lastUpdatedAt p' \<and>
         createdAt p' \<le> clock env (ticks w')"
proof (induction ops arbitrary: p w)
  case Nil
  then show ?case by simp
next
  case (Cons a ops)
  obtain k v where a: "a = (k, v)" by (cases a)
  define w1 where "w1 = w\<lparr>ticks := Suc (ticks w + k)\<rparr>"
  define p1 where
    "p1 = p\<lparr>videos := videos p @ [v], lastUpdatedAt := clock env (ticks w + k)\<rparr>"
  have step: "add_video env p v (w\<lparr>ticks := ticks w + k\<rparr>) = (p1, w1)"
    by (simp add: add_video_def now_ms_def p1_def w1_def)
  have le: "clock env (ticks w) \<le> clock env (ticks w + k)"
    using m by (simp add: mono_clock_def)
  have le2: "clock env (ticks w) \<le> clock env (ticks w1)"
    using m by (simp add: mono_clock_def w1_def)
  have 1: "createdAt p1 \<le> lastUpdatedAt p1" using Cons.prems(2) le by (simp add: p1_def)
  have 2: "createdAt p1 \<le> clock env (ticks w1)" using Cons.prems(2) le2 by (simp add: p1_def)
  have 3: "add_video_calls env p1 ops w1 = (p', w')"
    using Cons.prems(3) by (simp add: a step)
  have "createdAt p1 = createdAt p" by (simp add: p1_def)
  with Cons.IH[OF 1 2 3] show ?case by simp
qed

lemma new_inv:
  assumes "mono_clock env" "new env name d w = (p, w')"
  shows "createdAt p = clock env (ticks w) \<and> lastUpdatedAt p = createdAt p \<and>
     createdAt p \<le> clock env (ticks w')"
  using assms by (auto simp: new_def now_ms_def uuid4_def mono_clock_def)

text \<open>
  C9: when the clock never runs backwards, a playlist made by \<open>FreeTubePlaylist.new\<close> has
  \<open>lastUpdatedAt \<ge> createdAt\<close> after every operation of any sequence of \<open>add_video\<close>
  calls (that is, after every prefix \<open>take k ops\<close> of the sequence, the empty one being
  the creation), and \<open>createdAt\<close> stays the clock reading of the creation.
\<close>

theorem playlist_timestamps:
  assumes m: "mono_clock env"
  shows "let (p0, w0) = new env name d w;
             (p, w') = add_video_calls env p0 (take k ops) w0
         in createdAt p0 = clock env (ticks w) \<and> createdAt p = createdAt p0 \<and>
            createdAt p \<le> lastUpdatedAt p"
proof -
  obtain p0 w0 where n: "new env name d w = (p0, w0)" by (cases "new env name d w")
  obtain p w' where c: "add_video_calls env p0 (take k ops) w0 = (p, w')"
    by (cases "add_video_calls env p0 (take k ops) w0")
  from new_inv[OF m n] have a: "createdAt p0 \<le> lastUpdatedAt p0"
    and b: "createdAt p0 \<le> clock env (ticks w0)"
    and e: "createdAt p0 = clock env (ticks w)" by auto
  from add_video_calls_inv[OF m a b c] e show ?thesis by (simp add: n c)
qed

lemma mono_example_env: "mono_clock example_env"
  by (simp add: mono_clock_def example_env_def)

text \<open>
  C9 at the example clock, which advances by one millisecond per reading: a playlist
  created at the first reading, then two videos added, the second after three readings
  by others, has \<open>createdAt\<close> 1700000000000 and \<open>lastUpdatedAt\<close> 1700000000005.
\<close>

theorem playlist_timestamps_witness:
  "mono_clock example_env \<and>
   (let (p0, w0) = new example_env (ustr ''Mix'') [] example_world;
        (p, w') = add_video_calls example_env p0
                    (take 2 [(0, example_video), (3, example_video)]) w0
    in createdAt p = 1700000000000 \<and> lastUpdatedAt p = 1700000000005 \<and>
       createdAt p \<le> lastUpdatedAt p)"
  using playlist_timestamps[OF mono_example_env, of "ustr ''Mix''" "[]" example_world 2
      "[(0, example_video), (3, example_video)]"] mono_example_env
  by (simp add: new_def now_ms_def uuid4_def add_video_def example_env_def example_world_def)

section \<open>Properties of the builders\<close>

lemma from_ytdlp_entry_counts:
  "fst (from_ytdlp_entry env e w) = fst (from_ytdlp_entry env e (at_counts w0 (ticks w) (uuids w)))"
  by (simp add: from_ytdlp_entry_def now_ms_def uuid4_def at_counts_def)

lemma from_ytdlp_entry_world:
  "snd (from_ytdlp_entry env e w) = w\<lparr>ticks := Suc (ticks w), uuids := Suc (uuids w)\<rparr>"
  by (simp add: from_ytdlp_entry_def now_ms_def uuid4_def)

lemma add_entries_videos:
  "add_entries env ft es w = (ft', w') \<Longrightarrow>
   (\<exists>vs. videos ft' = videos ft @ vs \<and> length vs = length (filter keeps es) \<and>
     (\<forall>i<length vs. vs ! i =
        fst (from_ytdlp_entry env (filter keeps es ! i)
               (at_counts w0 (ticks w + 2 * i) (uuids w + i))))) \<and>
   console w' = console w \<and> files w' = files w \<and> dirs w' = dirs w \<and> fetches w' = fetches w"
proof (induction es arbitrary: ft w)
  case Nil
  then show ?case by simp
next
  case (Cons e es)
  show ?case
  proof (cases "keeps e")
    case False
    then have "add_entries env ft es w = (ft', w')"
      using Cons.prems by (simp add: keeps_def)
    from Cons.IH[OF this] False show ?thesis by simp
  next
    case True
    define v where "v = fst (from_ytdlp_entry env e w)"
    define w1 where "w1 = w\<lparr>ticks := Suc (ticks w), uuids := Suc (uuids w)\<rparr>"
    define w2 where "w2 = w1\<lparr>ticks := Suc (ticks w1)\<rparr>"
    define ft1 where "ft1 = ft\<lparr>videos := videos ft @ [v], lastUpdatedAt := clock env (ticks w1)\<rparr>"
    have fe: "from_ytdlp_entry env e w = (v, w1)"
      using from_ytdlp_entry_world[of env e w] by (simp add: v_def w1_def prod_eq_iff)
    have av: "add_video env ft v w1 = (ft1, w2)"
      by (simp add: add_video_def now_ms_def ft1_def w2_def)
    have rest: "add_entries env ft1 es w2 = (ft', w')"
      using Cons.prems True by (simp add: keeps_def fe av)
    from Cons.IH[OF rest] obtain vs where
      vs: "videos ft' = videos ft1 @ vs" "length vs = length (filter keeps es)"
        "\<forall>i<length vs. vs ! i =
          fst (from_ytdlp_entry env (filter keeps es ! i)
                 (at_counts w0 (ticks w2 + 2 * i) (uuids w2 + i)))"
      and fr: "console w' = console w2" "files w' = files w2" "dirs w' = dirs w2"
        "fetches w' = fetches w2"
      by blast
    have v0: "v = fst (from_ytdlp_entry env e (at_counts w0 (ticks w) (uuids w)))"
      unfolding v_def by (rule from_ytdlp_entry_counts)
    have t2: "ticks w2 = ticks w + 2" "uuids w2 = uuids w + 1" by (simp_all add: w2_def w1_def)
    have nth: "\<forall>i<length (v # vs). (v # vs) ! i =
        fst (from_ytdlp_entry env (filter keeps (e # es) ! i)
               (at_counts w0 (ticks w + 2 * i) (uuids w + i)))"
    proof (intro allI impI)
      fix i assume "i < length (v # vs)"
      show "(v # vs) ! i = fst (from_ytdlp_entry env (filter keeps (e # es) ! i)
               (at_counts w0 (ticks w + 2 * i) (uuids w + i)))"
      proof (cases i)
        case 0 then show ?thesis using True v0 by simp
      next
        case (Suc j)
        then have "j < length vs" using \<open>i < length (v # vs)\<close> by simp
        then show ?thesis using vs(3) True Suc by (simp add: t2)
      qed
    qed
    have "videos ft' = videos ft @ (v # vs)" using vs(1) by (simp add: ft1_def)
    moreover have "length (v # vs) = length (filter keeps (e # es))" using vs(2) True by simp
    ultimately have "\<exists>vs. videos ft' = videos ft @ vs \<and> length vs = length (filter keeps (e # es)) \<and>
     (\<forall>i<length vs. vs ! i =
        fst (from_ytdlp_entry env (filter keeps (e # es) ! i)
               (at_counts w0 (ticks w + 2 * i) (uuids w + i))))"
      using nth by blast
    moreover have "console w' = console w \<and> files w' = files w \<and> dirs w' = dirs w \<and> fetches w' = fetches w"
      using fr by (simp add: w2_def w1_def)
    ultimately show ?thesis by blast
  qed
qed

lemma kept_videoId:
  "keeps e \<Longrightarrow> videoId (fst (from_ytdlp_entry env e w)) = clean_text (get e ''id'')"
  by (auto simp: keeps_def from_ytdlp_entry_def now_ms_def uuid4_def py_or_def strip_def replace_char_def split: if_splits)

text \<open>
  C6: the playlist built from a raw entry list holds one record per entry whose ID is not
  empty after cleaning, in the order of the entry list: the \<open>i\<close>-th record is the
  \<open>from_ytdlp_entry\<close> mapping of the \<open>i\<close>-th such entry (made at the clock reading and
  with the identifier that are then due), and its \<open>videoId\<close> is the cleaned ID of that
  entry. Entries whose cleaned ID is empty leave no record.
\<close>

theorem entries_in_order:
  assumes b: "build_freetube_from_entries env info name descr w = (ft, w')"
  shows "length (videos ft) = length (filter keeps (entries_of info)) \<and>
    (\<forall>i<length (videos ft).
       videos ft ! i =
         fst (from_ytdlp_entry env (filter keeps (entries_of info) ! i)
                (at_counts w (ticks w + 1 + 2 * i) (uuids w + 1 + i)))) \<and>
    map videoId (videos ft) = map (\<lambda>e. clean_text (get e ''id'')) (filter keeps (entries_of info))"
proof -
  define pl_name where "pl_name = or_str (case name of None \<Rightarrow> [] | Some n \<Rightarrow> n)
                      (or_str (clean_text (py_or (info_title info) (PStr [])))
                         (ustr ''Imported Playlist''))"
  obtain ft0 w0 where n: "new env pl_name descr w = (ft0, w0)" by (cases "new env pl_name descr w")
  have v0: "videos ft0 = []" and t0: "ticks w0 = ticks w + 1" "uuids w0 = uuids w + 1"
    using n by (auto simp: new_def now_ms_def uuid4_def)
  have a: "add_entries env ft0 (entries_of info) w0 = (ft, w')"
    using b n by (simp add: build_freetube_from_entries_def pl_name_def entries_of_def)
  from add_entries_videos[OF a, of w] obtain vs where
    vs: "videos ft = videos ft0 @ vs" "length vs = length (filter keeps (entries_of info))"
     "\<forall>i<length vs. vs ! i =
        fst (from_ytdlp_entry env (filter keeps (entries_of info) ! i)
               (at_counts w (ticks w0 + 2 * i) (uuids w0 + i)))"
    by blast
  have eq: "videos ft = vs" using vs(1) v0 by simp
  have 1: "length (videos ft) = length (filter keeps (entries_of info))" using eq vs(2) by simp
  have 2: "\<forall>i<length (videos ft).
       videos ft ! i =
         fst (from_ytdlp_entry env (filter keeps (entries_of info) ! i)
                (at_counts w (ticks w + 1 + 2 * i) (uuids w + 1 + i)))"
    using vs(3) eq t0 by (simp add: add.commute add.left_commute)
  have 3: "map videoId (videos ft) = map (\<lambda>e. clean_text (get e ''id'')) (filter keeps (entries_of info))"
  proof (rule nth_equalityI)
    show "length (map videoId (videos ft)) = length (map (\<lambda>e. clean_text (get e ''id'')) (filter keeps (entries_of info)))"
      using 1 by simp
  next
    fix i assume "i < length (map videoId (videos ft))"
    then have i: "i < length (videos ft)" by simp
    then have "filter keeps (entries_of info) ! i \<in> set (filter keeps (entries_of info))"
      using 1 by (intro nth_mem) simp
    then have k: "keeps (filter keeps (entries_of info) ! i)" by simp
    show "map videoId (videos ft) ! i = map (\<lambda>e. clean_text (get e ''id'')) (filter keeps (entries_of info)) ! i"
      using i 1 2 kept_videoId[OF k] by simp
  qed
  from 1 2 3 show ?thesis by blast
qed

text \<open>
  C6 at three raw entries of which the second has the empty ID: exactly two records, of
  the first and the third entry, in this order.
\<close>

theorem entries_in_order_witness:
  "length (videos (fst (build_freetube_from_entries example_env example_info None []
       example_world))) = 2 \<and>
   map videoId (videos (fst (build_freetube_from_entries example_env example_info None []
       example_world))) = [ustr ''aaaaaaaaaaA'', ustr ''ccccccccccE''] \<and>
   map title (videos (fst (build_freetube_from_entries example_env example_info None []
       example_world))) = [ustr ''First'', ustr ''Third'']"
  using entries_in_order[of example_env example_info None "[]" example_world
      "fst (build_freetube_from_entries example_env example_info None [] example_world)"
      "snd (build_freetube_from_entries example_env example_info None [] example_world)"]
  by (simp add: build_freetube_from_entries_def example_info_def example_env_def
      example_world_def new_def now_ms_def uuid4_def add_video_def from_ytdlp_entry_def
      or_str_def py_or_def get_def NA_def ustr_def strip_def replace_char_def is_space_def
      ZERO_WIDTH_def entries_of_def keeps_def)

lemma placeholder_eq:
  "placeholder env vid w =
     (placeholder_record env vid (ticks w) (uuids w),
      w\<lparr>ticks := Suc (ticks w), uuids := Suc (uuids w)\<rparr>)"
  by (simp add: placeholder_def placeholder_record_def now_ms_def uuid4_def)

lemma extract_video_min_world:
  "snd (extract_video_min env vid w) = w\<lparr>fetches := Suc (fetches w)\<rparr>"
  by (simp add: extract_video_min_def Let_def split: extracted.splits)

lemma loop_body_video:
  assumes "extract_video_min env vid w = (meta, w1)"
  shows "fst (if meta ''id'' \<noteq> None \<and> get meta ''title'' \<noteq> PNone
              then from_ytdlp_entry env meta w1 else placeholder env vid w1) =
         id_record env w0 vid (fetches w) (ticks w) (uuids w)"
proof -
  have w1: "w1 = w\<lparr>fetches := Suc (fetches w)\<rparr>"
    using assms extract_video_min_world[of env vid w] by simp
  have c: "ticks w1 = ticks w" "uuids w1 = uuids w" by (simp_all add: w1)
  show ?thesis
  proof (cases "video env (fetches w) vid")
    case Raises
    then have "meta = [''id'' \<mapsto> PStr vid]" using assms by (simp add: extract_video_min_def Let_def)
    then show ?thesis using Raises by (simp add: id_record_def get_def placeholder_eq c)
  next
    case Nothing
    then have "meta = [''id'' \<mapsto> PStr vid]" using assms by (simp add: extract_video_min_def Let_def)
    then show ?thesis using Nothing by (simp add: id_record_def get_def placeholder_eq c)
  next
    case (Info d)
    show ?thesis
    proof (cases "d = Map.empty")
      case True
      then have "meta = [''id'' \<mapsto> PStr vid]" using assms Info by (simp add: extract_video_min_def Let_def)
      then show ?thesis using Info True
        by (simp add: id_record_def get_def placeholder_eq c usable_def)
    next
      case False
      then have m: "meta = d" using assms Info by (simp add: extract_video_min_def Let_def)
      show ?thesis
        using Info from_ytdlp_entry_counts[of env d w1 w0]
        by (simp add: m id_record_def usable_def placeholder_eq c)
    qed
  qed
qed

lemma add_ids_videos:
  "add_ids env quiet ft ids w = (ft', w') \<Longrightarrow>
   (\<exists>vs. videos ft' = videos ft @ vs \<and> length vs = length ids \<and>
     (\<forall>i<length vs. vs ! i =
        id_record env w0 (ids ! i) (fetches w + i) (ticks w + 2 * i) (uuids w + i)))"
proof (induction ids arbitrary: ft w)
  case Nil
  then show ?case by simp
next
  case (Cons vid ids)
  obtain meta w1 where ex: "extract_video_min env vid w = (meta, w1)"
    by (cases "extract_video_min env vid w")
  have w1: "w1 = w\<lparr>fetches := Suc (fetches w)\<rparr>"
    using ex extract_video_min_world[of env vid w] by simp
  define r where "r = (if meta ''id'' \<noteq> None \<and> get meta ''title'' \<noteq> PNone
              then from_ytdlp_entry env meta w1 else placeholder env vid w1)"
  define v where "v = fst r"
  define w2 where "w2 = snd r"
  have w2: "w2 = w1\<lparr>ticks := Suc (ticks w1), uuids := Suc (uuids w1)\<rparr>"
    unfolding w2_def r_def by (simp add: from_ytdlp_entry_world placeholder_eq)
  have v: "v = id_record env w0 vid (fetches w) (ticks w) (uuids w)"
    unfolding v_def r_def by (rule loop_body_video[OF ex])
  define w3 where "w3 = w2\<lparr>ticks := Suc (ticks w2)\<rparr>"
  define ft1 where "ft1 = ft\<lparr>videos := videos ft @ [v], lastUpdatedAt := clock env (ticks w2)\<rparr>"
  have av: "add_video env ft v w2 = (ft1, w3)"
    by (simp add: add_video_def now_ms_def ft1_def w3_def)
  define w4 where "w4 = (if quiet then w3
                else print (vid @ sep3 @ title (last (videos ft1)) @ sep3 @
                            author (last (videos ft1))) w3)"
  have rv: "(if meta ''id'' \<noteq> None \<and> get meta ''title'' \<noteq> PNone
              then from_ytdlp_entry env meta w1 else placeholder env vid w1) = (v, w2)"
    by (simp add: v_def w2_def r_def)
  have "add_ids env quiet ft (vid # ids) w = add_ids env quiet ft1 ids w4"
    by (simp only: add_ids.simps ex rv av w4_def Let_def prod.case)
  then have rest: "add_ids env quiet ft1 ids w4 = (ft', w')"
    using Cons.prems by simp
  have cnt: "fetches w4 = fetches w + 1" "ticks w4 = ticks w + 2" "uuids w4 = uuids w + 1"
    by (simp_all add: w4_def w3_def w2 w1 print_def)
  from Cons.IH[OF rest] obtain vs where
    vs: "videos ft' = videos ft1 @ vs" "length vs = length ids"
      "\<forall>i<length vs. vs ! i =
        id_record env w0 (ids ! i) (fetches w4 + i) (ticks w4 + 2 * i) (uuids w4 + i)"
    by blast
  have nth: "\<forall>i<length (v # vs). (v # vs) ! i =
        id_record env w0 ((vid # ids) ! i) (fetches w + i) (ticks w + 2 * i) (uuids w + i)"
  proof (intro allI impI)
    fix i assume "i < length (v # vs)"
    show "(v # vs) ! i =
        id_record env w0 ((vid # ids) ! i) (fetches w + i) (ticks w + 2 * i) (uuids w + i)"
    proof (cases i)
      case 0 then show ?thesis using v by simp
    next
      case (Suc j)
      then have "j < length vs" using \<open>i < length (v # vs)\<close> by simp
      then show ?thesis using vs(3) Suc by (simp add: cnt)
    qed
  qed
  have "videos ft' = videos ft @ (v # vs)" using vs(1) by (simp add: ft1_def)
  moreover have "length (v # vs) = length (vid # ids)" using vs(2) by simp
  ultimately show ?case using nth by blast
qed

text \<open>
  C5: \<open>build_freetube_from_ids\<close> always returns, with one record per ID in input order:
  the \<open>i\<close>-th record is the one for the \<open>i\<close>-th ID. Whenever the extraction for an ID
  raises, returns nothing, or returns a record without \<open>id\<close> or with no title, the record
  holds the input ID as \<open>videoId\<close>, the defaults \<open>N/A\<close>, \<open>0\<close> and \<open>video\<close> in the
  other fields of the data, and the fresh \<open>timeAdded\<close> and \<open>playlistItemId\<close>.
\<close>

theorem ids_never_abort:
  assumes b: "build_freetube_from_ids env ids name descr quiet w = (ft, w')"
  shows "length (videos ft) = length ids \<and>
    (\<forall>i<length ids.
       videos ft ! i =
         id_record env w (ids ! i) (fetches w + i) (ticks w + 1 + 2 * i) (uuids w + 1 + i)) \<and>
    (\<forall>i<length ids. \<not> usable (video env (fetches w + i) (ids ! i)) \<longrightarrow>
       videos ft ! i =
         \<lparr>videoId = ids ! i, title = ustr ''N/A'', author = ustr ''N/A'',
          authorId = ustr ''N/A'', lengthSeconds = 0, published = 0,
          timeAdded = clock env (ticks w + 1 + 2 * i),
          playlistItemId = uuid env (uuids w + 1 + i), type = ustr ''video''\<rparr>)"
proof -
  define pl_name where
    "pl_name = or_str name (ustr ''Imported IDs ('' @ dec (length ids) @ ustr '' videos)'')"
  obtain ft0 w0 where n: "new env pl_name descr w = (ft0, w0)" by (cases "new env pl_name descr w")
  have v0: "videos ft0 = []" and t0: "ticks w0 = ticks w + 1" "uuids w0 = uuids w + 1"
    "fetches w0 = fetches w"
    using n by (auto simp: new_def now_ms_def uuid4_def)
  have a: "add_ids env quiet ft0 ids w0 = (ft, w')"
    using b n by (simp add: build_freetube_from_ids_def pl_name_def)
  from add_ids_videos[OF a, of w] obtain vs where
    vs: "videos ft = videos ft0 @ vs" "length vs = length ids"
     "\<forall>i<length vs. vs ! i =
        id_record env w (ids ! i) (fetches w0 + i) (ticks w0 + 2 * i) (uuids w0 + i)"
    by blast
  have eq: "videos ft = vs" using vs(1) v0 by simp
  have 1: "length (videos ft) = length ids" using eq vs(2) by simp
  have 2: "\<forall>i<length ids.
       videos ft ! i =
         id_record env w (ids ! i) (fetches w + i) (ticks w + 1 + 2 * i) (uuids w + 1 + i)"
    using vs(3) vs(2) eq t0 by (simp add: add.commute add.left_commute)
  have 3: "\<And>vid f t u. \<not> usable (video env f vid) \<Longrightarrow>
      id_record env w vid f t u = placeholder_record env vid t u"
    by (auto simp: id_record_def split: extracted.splits)
  from 1 2 3 show ?thesis by (simp add: placeholder_record_def)
qed

text \<open>
  C5 at three IDs of which the extraction raises for the first and the third: three
  records in input order, placeholders around the mapped one.
\<close>

theorem ids_never_abort_witness:
  "\<not> usable (video example_env 0 (ustr ''aaaaaaaaaaA'')) \<and>
   map videoId (videos (fst (build_freetube_from_ids example_env
       [ustr ''aaaaaaaaaaA'', ustr ''bbbbbbbbbbE'', ustr ''ccccccccccI''] [] [] True
       example_world))) = [ustr ''aaaaaaaaaaA'', ustr ''bbbbbbbbbbE'', ustr ''ccccccccccI''] \<and>
   map title (videos (fst (build_freetube_from_ids example_env
       [ustr ''aaaaaaaaaaA'', ustr ''bbbbbbbbbbE'', ustr ''ccccccccccI''] [] [] True
       example_world))) = [ustr ''N/A'', ustr ''Song'', ustr ''N/A'']"
  using ids_never_abort[of example_env
      "[ustr ''aaaaaaaaaaA'', ustr ''bbbbbbbbbbE'', ustr ''ccccccccccI'']" "[]" "[]" True
      example_world
      "fst (build_freetube_from_ids example_env
         [ustr ''aaaaaaaaaaA'', ustr ''bbbbbbbbbbE'', ustr ''ccccccccccI''] [] [] True
         example_world)"
      "snd (build_freetube_from_ids example_env
         [ustr ''aaaaaaaaaaA'', ustr ''bbbbbbbbbbE'', ustr ''ccccccccccI''] [] [] True
         example_world)"]
  by (simp add: build_freetube_from_ids_def example_env_def
      example_world_def new_def now_ms_def uuid4_def add_video_def from_ytdlp_entry_def
      placeholder_def extract_video_min_def usable_def
      or_str_def py_or_def get_def NA_def ustr_def strip_def replace_char_def is_space_def
      ZERO_WIDTH_def)

section \<open>Properties of the subscription fetch\<close>




section \<open>Properties of the exporters\<close>

lemma chunk_count_ge: "0 < N \<Longrightarrow> n \<le> chunk_count N n * N"
proof -
  assume N: "0 < N"
  have "n + N - 1 = (n + N - 1) div N * N + (n + N - 1) mod N" by simp
  moreover have "(n + N - 1) mod N < N" using N by simp
  ultimately show ?thesis unfolding chunk_count_def by linarith
qed

lemma chunk_count_lt: "0 < N \<Longrightarrow> j < chunk_count N n \<Longrightarrow> j * N < n"
proof -
  assume N: "0 < N" and j: "j < chunk_count N n"
  have a: "(n + N - 1) div N * N \<le> n + N - 1" by simp
  from j have "Suc j \<le> (n + N - 1) div N" by (simp add: chunk_count_def)
  then have "Suc j * N \<le> (n + N - 1) div N * N" by (rule mult_le_mono1)
  then have "Suc j * N \<le> n + N - 1" using a by (rule le_trans)
  then have "j * N + N \<le> n + N - 1" by (simp add: add.commute)
  then show ?thesis using N by linarith
qed

lemma write_chunks_step:
  assumes "0 < N" "j * N < length vids"
  shows "write_chunks pretty quiet base outdir name vids N (j * N) tot w =
         write_chunks pretty quiet base outdir name vids N (Suc j * N) (tot + 1)
           (write_chunk pretty quiet base outdir name vids N j w)"
proof -
  have d: "j * N div N = j" using assms(1) by simp
  show ?thesis
    using assms
    by (subst write_chunks.simps)
       (simp add: Let_def d write_chunk_def chunk_name_def chunk_text_def piped_playlist_def
          add.commute)
qed

lemma write_chunks_fold:
  assumes N: "0 < N"
  shows "j \<le> chunk_count N (length vids) \<Longrightarrow>
     write_chunks pretty quiet base outdir name vids N (j * N) tot w =
       (tot + (chunk_count N (length vids) - j),
        foldl (\<lambda>w k. write_chunk pretty quiet base outdir name vids N k w) w
          [j..<chunk_count N (length vids)])"
proof (induction "chunk_count N (length vids) - j" arbitrary: j tot w)
  case 0
  then have j: "j = chunk_count N (length vids)" by simp
  have "length vids \<le> j * N" unfolding j using N by (rule chunk_count_ge)
  then show ?case using j by (subst write_chunks.simps) simp
next
  case (Suc d)
  then have lt: "j < chunk_count N (length vids)" by simp
  then have s: "j * N < length vids" using N chunk_count_lt by blast
  have d: "d = chunk_count N (length vids) - Suc j" using Suc.hyps(2) by simp
  have le: "Suc j \<le> chunk_count N (length vids)" using lt by simp
  have u: "[j..<chunk_count N (length vids)] = j # [Suc j..<chunk_count N (length vids)]"
    using lt by (simp add: upt_conv_Cons)
  show ?case
    using Suc.hyps(1)[OF d le] lt
    by (simp add: write_chunks_step[OF N s] u)
qed

lemma split_playlists_fold:
  assumes N: "0 < N"
  shows "split_playlists pretty quiet base outdir (int N) playlists tot w =
     (Inr (tot + sum_list (map (\<lambda>pl. chunk_count N (length (snd pl))) playlists)),
      foldl (write_playlist_chunks pretty quiet base outdir N) w playlists)"
proof (induction playlists arbitrary: tot w)
  case Nil
  then show ?case by simp
next
  case (Cons pl playlists)
  obtain name vids where pl: "pl = (name, vids)" by (cases pl)
  have "write_chunks pretty quiet base outdir name vids N 0 tot w =
       (tot + chunk_count N (length vids),
        foldl (\<lambda>w k. write_chunk pretty quiet base outdir name vids N k w) w
          [0..<chunk_count N (length vids)])"
    using write_chunks_fold[OF N, of 0 vids pretty quiet base outdir name tot w] by simp
  then show ?case using N Cons.IH
    by (simp add: pl write_playlist_chunks_def add.assoc)
qed

lemma export_split_fold:
  assumes N: "0 < N"
  shows "export_piped_json_split playlists base_out (int N) split_dir pretty quiet w =
     (Inr (chunk_dir base_out split_dir),
      cprint check_mark
        (ustr ''Split Piped JSON finished: '' @
         dec (sum_list (map (\<lambda>pl. chunk_count N (length (snd pl))) playlists)) @
         ustr '' files in '' @ chunk_dir base_out split_dir) quiet
        (foldl (write_playlist_chunks pretty quiet (chunk_base base_out)
                  (chunk_dir base_out split_dir) N)
           (makedirs (chunk_dir base_out split_dir) w) playlists))"
  by (simp add: export_piped_json_split_def Let_def split_playlists_fold[OF N]
      chunk_dir_def chunk_base_def)

lemma undec_snoc: "undec (xs @ [c]) = 10 * undec xs + (c - 48)"
  by (simp add: undec_def)

lemma undec_dec: "undec (dec n) = n"
proof (induction n rule: dec.induct)
  case (1 n)
  show ?case
  proof (cases "n < 10")
    case True
    then show ?thesis by (subst dec.simps) (simp add: undec_def)
  next
    case False
    then have "undec (dec n) = 10 * undec (dec (n div 10)) + n mod 10"
      by (subst dec.simps) (simp add: undec_snoc)
    then show ?thesis using 1 False by simp
  qed
qed

lemma undec_zeros: "undec (replicate a 48 @ xs) = undec xs"
proof -
  have "foldl (\<lambda>a c. 10 * a + (c - 48)) 0 (replicate a 48) = (0::nat)"
    by (induction a) simp_all
  then show ?thesis by (simp add: undec_def)
qed

lemma undec_fmt03: "undec (fmt03 n) = n"
  by (simp add: fmt03_def undec_zeros undec_dec)

lemma fmt03_inj: "fmt03 m = fmt03 n \<Longrightarrow> m = n"
  by (metis undec_fmt03)

lemma dec_not_Nil: "dec n \<noteq> []"
  by (subst dec.simps) simp

lemma length_fmt03: "3 \<le> length (fmt03 n)"
  by (simp add: fmt03_def)

lemma length_dec_small: "n < 1000 \<Longrightarrow> length (dec n) \<le> 3"
  by (simp add: dec.simps[of n] dec.simps[of "n div 10"] dec.simps[of "n div 10 div 10"])

lemma length_fmt03_small: "n < 1000 \<Longrightarrow> length (fmt03 n) = 3"
  using length_dec_small[of n] by (simp add: fmt03_def)

lemma rfind_None: "rfind c p = None \<Longrightarrow> c \<notin> set p"
  by (auto simp: rfind_def in_set_conv_nth filter_empty_conv split: list.splits)

lemma filter_rev_upt_hd:
  "filter P (rev [0..<n]) = i # rest \<Longrightarrow> i < j \<Longrightarrow> j < n \<Longrightarrow> \<not> P j"
proof (induction n)
  case 0
  then show ?case by simp
next
  case (Suc n)
  show ?case
  proof (cases "P n")
    case True
    then have "i = n" using Suc.prems(1) by simp
    then show ?thesis using Suc.prems by simp
  next
    case False
    then have f: "filter P (rev [0..<n]) = i # rest" using Suc.prems(1) by simp
    show ?thesis
    proof (cases "j = n")
      case True then show ?thesis using False by simp
    next
      case False
      then have "j < n" using Suc.prems(3) by simp
      then show ?thesis using Suc.IH[OF f Suc.prems(2)] by simp
    qed
  qed
qed

lemma rfind_Some:
  assumes "rfind c p = Some i" "i < j" "j < length p"
  shows "p ! j \<noteq> c"
proof -
  from assms(1) obtain rest where
    "filter (\<lambda>i. p ! i = c) (rev [0..<length p]) = i # rest"
    by (simp add: rfind_def split: list.splits)
  from filter_rev_upt_hd[OF this assms(2) assms(3)] show ?thesis .
qed

lemma basename_no_sep: "47 \<notin> set (basename p)"
proof (cases "rfind 47 p")
  case None
  then have "47 \<notin> set p" by (rule rfind_None)
  moreover have "set (basename p) \<subseteq> set p"
    unfolding basename_def by (rule set_drop_subset)
  ultimately show ?thesis by blast
next
  case (Some i)
  have b: "basename p = drop (Suc i) p" by (simp add: basename_def after_sep_def Some)
  show ?thesis
  proof
    assume "47 \<in> set (basename p)"
    then obtain k where k: "k < length (drop (Suc i) p)" "drop (Suc i) p ! k = 47"
      unfolding b in_set_conv_nth by blast
    then have "p ! (Suc i + k) = 47" by simp
    moreover have "Suc i + k < length p" using k(1) by simp
    ultimately show False using rfind_Some[OF Some, of "Suc i + k"] by simp
  qed
qed

lemma splitext_fst_set: "set (fst (splitext p)) \<subseteq> set p"
proof (cases "rfind 46 p")
  case None
  then show ?thesis by (simp add: splitext_def)
next
  case (Some d)
  have "set (take d p) \<subseteq> set p" by (rule set_take_subset)
  then show ?thesis by (simp add: splitext_def Some)
qed

lemma chunk_base_no_sep: "47 \<notin> set (chunk_base base_out)"
  using splitext_fst_set[of "basename (or_str base_out (ustr ''piped.json''))"]
    basename_no_sep[of "or_str base_out (ustr ''piped.json'')"]
  unfolding chunk_base_def by blast

lemma chunk_name_hd:
  assumes "47 \<notin> set base"
  shows "chunk_name base name k \<noteq> [] \<and> hd (chunk_name base name k) \<noteq> 47"
proof (cases base)
  case Nil
  then show ?thesis by (simp add: chunk_name_def)
next
  case (Cons b bs)
  then have "b \<noteq> 47" using assms by auto
  then show ?thesis using Cons by (simp add: chunk_name_def)
qed

lemma path_join_inj:
  assumes "x \<noteq> []" "hd x \<noteq> 47" "y \<noteq> []" "hd y \<noteq> 47" "path_join d x = path_join d y"
  shows "x = y"
  using assms by (simp add: path_join_def split: if_splits)

lemma chunk_name_inj: "chunk_name base name k = chunk_name base name k' \<Longrightarrow> k = k'"
proof -
  assume "chunk_name base name k = chunk_name base name k'"
  then have "fmt03 (k + 1) = fmt03 (k' + 1)" by (simp add: chunk_name_def)
  then have "k + 1 = k' + 1" by (rule fmt03_inj)
  then show ?thesis by simp
qed

lemma chunk_path_inj:
  assumes "47 \<notin> set base"
    "path_join d (chunk_name base name k) = path_join d (chunk_name base name k')"
  shows "k = k'"
proof -
  note a = chunk_name_hd[OF assms(1), of name k] and b = chunk_name_hd[OF assms(1), of name k']
  have "chunk_name base name k = chunk_name base name k'"
    using a b assms(2) path_join_inj by blast
  then show ?thesis by (rule chunk_name_inj)
qed

lemma write_file_eq:
  "write_file p t w = w\<lparr>files := (files w)(p \<mapsto> (stored w p)\<lparr>content := t\<rparr>)\<rparr>"
  by (simp add: write_file_def open_w_def fclose_def fflush_def fwrite_def stored_def)

lemma stored_write_file:
  "stored (write_file p t w) q = (if q = p then (stored w p)\<lparr>content := t\<rparr> else stored w q)"
  by (simp add: write_file_eq stored_def)

lemma stored_print [simp]: "stored (print l w) p = stored w p"
  by (simp add: stored_def print_def)

lemma stored_cprint [simp]: "stored (cprint h r q w) p = stored w p"
  by (simp add: cprint_def)

lemma stored_makedirs [simp]: "stored (makedirs d w) p = stored w p"
  by (simp add: stored_def makedirs_def)

lemma stored_write_chunk:
  "stored (write_chunk pretty quiet base outdir name vids N k w) p =
     (if p = path_join outdir (chunk_name base name k)
      then (stored w p)\<lparr>content := chunk_text pretty name vids N k\<rparr>
      else stored w p)"
  by (simp add: write_chunk_def Let_def stored_write_file)

lemma content_chunks:
  assumes b: "47 \<notin> set base"
  shows "j \<le> k \<Longrightarrow> k < K \<Longrightarrow>
    content (stored (foldl (\<lambda>w k. write_chunk pretty quiet base outdir name vids N k w) w [j..<K])
               (path_join outdir (chunk_name base name k))) =
      chunk_text pretty name vids N k"
proof (induction K)
  case 0
  then show ?case by simp
next
  case (Suc K)
  have jK: "j \<le> K" using Suc.prems by simp
  then have u: "[j..<Suc K] = [j..<K] @ [K]" by simp
  show ?case
  proof (cases "k = K")
    case True
    then show ?thesis using jK by (simp add: stored_write_chunk)
  next
    case False
    then have lt: "k < K" using Suc.prems by simp
    have ne: "path_join outdir (chunk_name base name k) \<noteq>
              path_join outdir (chunk_name base name K)"
      using chunk_path_inj[OF b, of outdir name k K] False by blast
    show ?thesis using Suc.IH[OF Suc.prems(1) lt] ne jK by (simp add: stored_write_chunk)
  qed
qed

lemma chunk_count_ceiling:
  assumes N: "0 < N"
  shows "chunk_count N n = (if n mod N = 0 then n div N else n div N + 1)"
proof -
  define q where "q = n div N"
  define r where "r = n mod N"
  have n: "n = r + q * N" by (simp add: q_def r_def)
  have r: "r < N" using N by (simp add: r_def)
  show ?thesis
  proof (cases "r = 0")
    case True
    have "n + N - 1 = (N - 1) + q * N" using N n True by simp
    then have "(n + N - 1) div N = q + (N - 1) div N"
      using N by (simp only: div_mult_self1)
    then show ?thesis using N True by (simp add: chunk_count_def q_def r_def)
  next
    case False
    have "n + N - 1 = (r - 1) + (q + 1) * N" using N n False by simp
    then have "(n + N - 1) div N = (q + 1) + (r - 1) div N"
      using N by (simp only: div_mult_self1)
    moreover have "(r - 1) div N = 0" using r by simp
    ultimately show ?thesis using False by (simp add: chunk_count_def q_def r_def)
  qed
qed

lemma files_print [simp]: "files (print l w) = files w"
  by (simp add: print_def)

lemma files_cprint [simp]: "files (cprint h r q w) = files w"
  by (simp add: cprint_def)

lemma files_write_chunk:
  "files (write_chunk pretty quiet base outdir name vids N k w)
     (path_join outdir (chunk_name base name k)) \<noteq> None"
  by (simp add: write_chunk_def Let_def write_file_eq)

lemma files_write_chunk_mono:
  "files w p \<noteq> None \<Longrightarrow> files (write_chunk pretty quiet base outdir name vids N k w) p \<noteq> None"
  by (simp add: write_chunk_def Let_def write_file_eq)

lemma files_chunks:
  "j \<le> k \<Longrightarrow> k < K \<Longrightarrow>
    files (foldl (\<lambda>w k. write_chunk pretty quiet base outdir name vids N k w) w [j..<K])
      (path_join outdir (chunk_name base name k)) \<noteq> None"
proof (induction K)
  case 0
  then show ?case by simp
next
  case (Suc K)
  have jK: "j \<le> K" using Suc.prems by simp
  show ?case
  proof (cases "k = K")
    case True
    then show ?thesis using jK files_write_chunk by simp
  next
    case False
    then have "k < K" using Suc.prems by simp
    from Suc.IH[OF Suc.prems(1) this] show ?thesis using jK files_write_chunk_mono by simp
  qed
qed

lemma single_playlist_world:
  assumes N: "0 < N"
  shows "snd (export_piped_json_split [(name, vids)] base_out (int N) split_dir pretty quiet w) =
     cprint check_mark
        (ustr ''Split Piped JSON finished: '' @ dec (chunk_count N (length vids)) @
         ustr '' files in '' @ chunk_dir base_out split_dir) quiet
        (foldl (\<lambda>w k. write_chunk pretty quiet (chunk_base base_out)
                  (chunk_dir base_out split_dir) name vids N k w)
           (makedirs (chunk_dir base_out split_dir) w) [0..<chunk_count N (length vids)])"
  by (simp add: export_split_fold[OF N] write_playlist_chunks_def)

lemma distinct_chunk_paths:
  assumes "47 \<notin> set base"
  shows "distinct (map (\<lambda>k. path_join d (chunk_name base name k)) [0..<K])"
proof -
  have "inj_on (\<lambda>k. path_join d (chunk_name base name k)) (set [0..<K])"
    using chunk_path_inj[OF assms] by (intro inj_onI) blast
  then show ?thesis by (simp add: distinct_map)
qed

text \<open>
  C2, amended: for a chunk size \<open>N > 0\<close> the chunked export is the same as writing, for
  every playlist in turn, its \<open>ceil(n/N)\<close> chunk files in order, each holding one playlist
  object with the next \<open>N\<close> videos of that playlist in input order (the last may hold
  fewer); chunks of different playlists are never merged. For one playlist the files are
  distinct and file \<open>k\<close> has the name base, underscore, sanitized playlist name,
  underscore, the 1-based chunk index, \<open>.json\<close>. The index is padded with zeros to at least
  three digits: it has exactly three digits up to chunk 999 and more from chunk 1000 on.
\<close>

theorem chunked_export:
  assumes N: "0 < N"
  shows
   "export_piped_json_split playlists base_out (int N) split_dir pretty quiet w =
     (Inr (chunk_dir base_out split_dir),
      cprint check_mark
        (ustr ''Split Piped JSON finished: '' @
         dec (sum_list (map (\<lambda>pl. chunk_count N (length (snd pl))) playlists)) @
         ustr '' files in '' @ chunk_dir base_out split_dir) quiet
        (foldl (write_playlist_chunks pretty quiet (chunk_base base_out)
                  (chunk_dir base_out split_dir) N)
           (makedirs (chunk_dir base_out split_dir) w) playlists)) \<and>
    (\<forall>k<chunk_count N (length vids).
       content (stored (snd (export_piped_json_split [(name, vids)] base_out (int N) split_dir
                               pretty quiet w))
                 (path_join (chunk_dir base_out split_dir)
                    (chunk_name (chunk_base base_out) name k))) =
         chunk_text pretty name vids N k \<and>
       length (take N (drop (k * N) vids)) = min N (length vids - k * N)) \<and>
    distinct (map (\<lambda>k. path_join (chunk_dir base_out split_dir)
                         (chunk_name (chunk_base base_out) name k))
               [0..<chunk_count N (length vids)]) \<and>
    chunk_count N (length vids) =
      (if length vids mod N = 0 then length vids div N else length vids div N + 1) \<and>
    3 \<le> length (fmt03 (k + 1)) \<and> undec (fmt03 (k + 1)) = k + 1 \<and>
    (k + 1 < 1000 \<longrightarrow> length (fmt03 (k + 1)) = 3)"
proof -
  have 1: "export_piped_json_split playlists base_out (int N) split_dir pretty quiet w =
     (Inr (chunk_dir base_out split_dir),
      cprint check_mark
        (ustr ''Split Piped JSON finished: '' @
         dec (sum_list (map (\<lambda>pl. chunk_count N (length (snd pl))) playlists)) @
         ustr '' files in '' @ chunk_dir base_out split_dir) quiet
        (foldl (write_playlist_chunks pretty quiet (chunk_base base_out)
                  (chunk_dir base_out split_dir) N)
           (makedirs (chunk_dir base_out split_dir) w) playlists))"
    by (rule export_split_fold[OF N])
  have 2: "\<forall>k<chunk_count N (length vids).
       content (stored (snd (export_piped_json_split [(name, vids)] base_out (int N) split_dir
                               pretty quiet w))
                 (path_join (chunk_dir base_out split_dir)
                    (chunk_name (chunk_base base_out) name k))) =
         chunk_text pretty name vids N k \<and>
       length (take N (drop (k * N) vids)) = min N (length vids - k * N)"
    using content_chunks[OF chunk_base_no_sep, of 0]
    by (simp add: single_playlist_world[OF N] min.commute)
  have 3: "distinct (map (\<lambda>k. path_join (chunk_dir base_out split_dir)
                         (chunk_name (chunk_base base_out) name k))
               [0..<chunk_count N (length vids)])"
    by (rule distinct_chunk_paths[OF chunk_base_no_sep])
  have 4: "chunk_count N (length vids) =
      (if length vids mod N = 0 then length vids div N else length vids div N + 1)"
    by (rule chunk_count_ceiling[OF N])
  have 5: "3 \<le> length (fmt03 (k + 1)) \<and> undec (fmt03 (k + 1)) = k + 1 \<and>
    (k + 1 < 1000 \<longrightarrow> length (fmt03 (k + 1)) = 3)"
    using length_fmt03_small[of "k + 1"] by (simp add: length_fmt03 undec_fmt03)
  from 1 2 3 4 5 show ?thesis by blast
qed

lemma piped_chunk_dir: "chunk_dir (ustr ''piped.json'') None = ustr ''chunks/piped''"
  by (simp add: chunk_dir_def chunk_base_def or_else_def or_str_def path_join_def splitext_def
      basename_def after_sep_def rfind_def ustr_def upt_rec)

lemma piped_chunk_base: "chunk_base (ustr ''piped.json'') = ustr ''piped''"
  by (simp add: chunk_base_def or_str_def splitext_def
      basename_def after_sep_def rfind_def ustr_def upt_rec)

text \<open>
  C2, as the spec states it, has a 3-digit chunk index in every file name. With 1000
  videos and chunk size 1 the export writes the file \<open>piped_n_1000.json\<close>, whose index
  has four digits.
\<close>

theorem chunk_index_four_digits:
  "files (snd (export_piped_json_split [(ustr ''n'', replicate 1000 (ustr ''dQw4w9WgXcQ''))]
                 (ustr ''piped.json'') 1 None False True example_world))
     (ustr ''chunks/piped/piped_n_1000.json'') \<noteq> None"
proof -
  have c: "chunk_count 1 (length (replicate 1000 (ustr ''dQw4w9WgXcQ''))) = 1000"
    by (simp add: chunk_count_def)
  have p: "path_join (ustr ''chunks/piped'') (chunk_name (ustr ''piped'') (ustr ''n'') 999) =
           ustr ''chunks/piped/piped_n_1000.json''"
    by (simp add: path_join_def chunk_name_def sanitize_name_def strip_chars_def name_char_def
        fmt03_def dec.simps ustr_def)
  have "int 1 = 1" by simp
  then have "snd (export_piped_json_split [(ustr ''n'', replicate 1000 (ustr ''dQw4w9WgXcQ''))]
                 (ustr ''piped.json'') 1 None False True example_world) =
     cprint check_mark
        (ustr ''Split Piped JSON finished: '' @ dec 1000 @
         ustr '' files in '' @ ustr ''chunks/piped'') True
        (foldl (\<lambda>w k. write_chunk False True (ustr ''piped'') (ustr ''chunks/piped'') (ustr ''n'')
                   (replicate 1000 (ustr ''dQw4w9WgXcQ'')) 1 k w)
           (makedirs (ustr ''chunks/piped'') example_world) [0..<1000])"
    using single_playlist_world[of 1 "ustr ''n''" "replicate 1000 (ustr ''dQw4w9WgXcQ'')"
        "ustr ''piped.json''" None False True example_world]
    by (simp only: c piped_chunk_dir piped_chunk_base)
  then show ?thesis
    using files_chunks[of 0 999 1000 False True "ustr ''piped''" "ustr ''chunks/piped''"
        "ustr ''n''" "replicate 1000 (ustr ''dQw4w9WgXcQ'')" 1
        "makedirs (ustr ''chunks/piped'') example_world"]
    by (simp only: p files_cprint) simp
qed

lemma mix_chunk_name:
  "chunk_name (ustr ''piped'') (ustr ''Mix'') 0 = ustr ''piped_Mix_001.json''"
  "chunk_name (ustr ''piped'') (ustr ''Mix'') 1 = ustr ''piped_Mix_002.json''"
  "chunk_name (ustr ''piped'') (ustr ''Mix'') 2 = ustr ''piped_Mix_003.json''"
  by (simp_all add: chunk_name_def sanitize_name_def strip_chars_def name_char_def
        fmt03_def dec.simps ustr_def numeral_2_eq_2)

text \<open>
  C2, amended, at seven videos and chunk size 3: three files, with the suffixes
  \<open>_001\<close>, \<open>_002\<close>, \<open>_003\<close>, holding the videos 1 to 3, 4 to 6 and 7.
\<close>

theorem chunked_export_witness:
  "0 < (3::nat) \<and> chunk_count 3 (length example_ids) = 3 \<and>
   content (stored (snd (export_piped_json_split [(ustr ''Mix'', example_ids)]
                           (ustr ''piped.json'') 3 None False True example_world))
      (ustr ''chunks/piped/piped_Mix_001.json'')) =
     dump_unicode False
       (JObj [(ustr ''format'', JStr (ustr ''Piped'')), (ustr ''version'', JInt 1),
              (ustr ''playlists'',
               JArr [piped_playlist (ustr ''Mix'') [ustr ''v1'', ustr ''v2'', ustr ''v3'']])]) \<and>
   content (stored (snd (export_piped_json_split [(ustr ''Mix'', example_ids)]
                           (ustr ''piped.json'') 3 None False True example_world))
      (ustr ''chunks/piped/piped_Mix_002.json'')) =
     dump_unicode False
       (JObj [(ustr ''format'', JStr (ustr ''Piped'')), (ustr ''version'', JInt 1),
              (ustr ''playlists'',
               JArr [piped_playlist (ustr ''Mix'') [ustr ''v4'', ustr ''v5'', ustr ''v6'']])]) \<and>
   content (stored (snd (export_piped_json_split [(ustr ''Mix'', example_ids)]
                           (ustr ''piped.json'') 3 None False True example_world))
      (ustr ''chunks/piped/piped_Mix_003.json'')) =
     dump_unicode False
       (JObj [(ustr ''format'', JStr (ustr ''Piped'')), (ustr ''version'', JInt 1),
              (ustr ''playlists'', JArr [piped_playlist (ustr ''Mix'') [ustr ''v7'']])])"
proof -
  have c: "chunk_count 3 (length example_ids) = 3"
    by (simp add: chunk_count_def example_ids_def)
  have N: "0 < (3::nat)" by simp
  note T = chunked_export[OF N, of "[]" "ustr ''piped.json''" None False True example_world
      example_ids "ustr ''Mix''" 0]
  then have a: "\<forall>k<3.
       content (stored (snd (export_piped_json_split [(ustr ''Mix'', example_ids)]
                               (ustr ''piped.json'') (int 3) None False True example_world))
                 (path_join (ustr ''chunks/piped'') (chunk_name (ustr ''piped'') (ustr ''Mix'') k))) =
         chunk_text False (ustr ''Mix'') example_ids 3 k"
    by (simp only: c piped_chunk_dir piped_chunk_base) blast
  have j: "\<And>x. path_join (ustr ''chunks/piped'') (ustr ''piped_Mix_00'' @ x) =
            ustr ''chunks/piped/piped_Mix_00'' @ x"
    by (simp add: path_join_def ustr_def)
  have s: "ustr ''piped_Mix_001.json'' = ustr ''piped_Mix_00'' @ ustr ''1.json''"
      "ustr ''piped_Mix_002.json'' = ustr ''piped_Mix_00'' @ ustr ''2.json''"
      "ustr ''piped_Mix_003.json'' = ustr ''piped_Mix_00'' @ ustr ''3.json''"
      "ustr ''chunks/piped/piped_Mix_001.json'' = ustr ''chunks/piped/piped_Mix_00'' @ ustr ''1.json''"
      "ustr ''chunks/piped/piped_Mix_002.json'' = ustr ''chunks/piped/piped_Mix_00'' @ ustr ''2.json''"
      "ustr ''chunks/piped/piped_Mix_003.json'' = ustr ''chunks/piped/piped_Mix_00'' @ ustr ''3.json''"
    by (simp_all add: ustr_def)
  have i: "int 3 = 3" by simp
  from a[rule_format, of 0] a[rule_format, of 1] a[rule_format, of 2] c show ?thesis
    unfolding i mix_chunk_name s j
    by (simp add: chunk_text_def piped_playlist_def example_ids_def)
qed

lemma writerow_pair: "writerow [a, b] = csv_field a @ [44] @ csv_field b @ [13, 10]"
  by (simp add: writerow_def)

lemma csv_header:
  "csv_field (ustr ''videoId'') @ 44 # csv_field (ustr ''addedAt'') = ustr ''videoId,addedAt''"
  by (simp add: csv_field_def csv_special_def ustr_def)

lemma write_file_content: "content (stored (write_file p t w) p) = t"
  by (simp add: stored_write_file)

text \<open>
  C7, as the spec states it, has every field in double quotes. The writer is created
  with the default quoting: for the one ID \<open>dQw4w9WgXcQ\<close> the file is
  \<open>videoId,addedAt\<close>, CR-LF, \<open>dQw4w9WgXcQ,\<close>, CR-LF, with no double quote in it.
\<close>

theorem csv_not_quoted:
  "content (stored (snd (export_piped_csv [ustr ''dQw4w9WgXcQ''] None True example_world))
      (ustr ''piped.csv'')) =
     ustr ''videoId,addedAt'' @ [13, 10] @ ustr ''dQw4w9WgXcQ,'' @ [13, 10] \<and>
   34 \<notin> set (content (stored (snd (export_piped_csv [ustr ''dQw4w9WgXcQ''] None True
                                      example_world)) (ustr ''piped.csv'')))"
  by (simp add: export_piped_csv_def or_else_def Let_def write_file_content writerow_def
      csv_field_def csv_special_def ustr_def)

text \<open>
  C7, amended: the tabular export writes the header row \<open>videoId,addedAt\<close> and then one
  row per ID in input order, every row ending with CR-LF and with an empty second column;
  a field is put in double quotes (its quotes doubled) only when it contains a comma, a
  double quote, CR or LF, and is written as it is otherwise.
\<close>

theorem csv_rows:
  "content (stored (snd (export_piped_csv video_ids out_path quiet w))
             (fst (export_piped_csv video_ids out_path quiet w))) =
     ustr ''videoId,addedAt'' @ [13, 10] @
     concat (map (\<lambda>vid. csv_field vid @ [44, 13, 10]) video_ids) \<and>
   fst (export_piped_csv video_ids out_path quiet w) = or_else out_path (ustr ''piped.csv'') \<and>
   csv_field vid =
      (if \<exists>c\<in>set vid. c = 44 \<or> c = 34 \<or> c = 13 \<or> c = 10
       then [34] @ concat (map (\<lambda>c. if c = 34 then [34, 34] else [c]) vid) @ [34]
       else vid)"
proof -
  have e: "csv_field [] = []" by (simp add: csv_field_def)
  have 1: "content (stored (snd (export_piped_csv video_ids out_path quiet w))
             (fst (export_piped_csv video_ids out_path quiet w))) =
     ustr ''videoId,addedAt'' @ [13, 10] @
     concat (map (\<lambda>vid. csv_field vid @ [44, 13, 10]) video_ids)"
    by (simp add: export_piped_csv_def Let_def csv_header writerow_pair e write_file_content)
  have 2: "fst (export_piped_csv video_ids out_path quiet w) = or_else out_path (ustr ''piped.csv'')"
    by (simp add: export_piped_csv_def Let_def)
  have 3: "csv_field vid =
      (if \<exists>c\<in>set vid. c = 44 \<or> c = 34 \<or> c = 13 \<or> c = 10
       then [34] @ concat (map (\<lambda>c. if c = 34 then [34, 34] else [c]) vid) @ [34]
       else vid)"
    by (simp add: csv_field_def csv_special_def list_ex_iff)
  from 1 2 3 show ?thesis by blast
qed

text \<open>
  C7, amended, at a plain ID and an ID with a quote and a comma: the second is quoted,
  the first is not.
\<close>

theorem csv_rows_witness:
  \<open>content (stored (snd (export_piped_csv [ustr ''dQw4w9WgXcQ'', ustr ''a"b,c''] None True
                           example_world)) (ustr ''piped.csv'')) =
     ustr ''videoId,addedAt'' @ [13, 10] @ ustr ''dQw4w9WgXcQ,'' @ [13, 10] @
     ustr ''"a""b,c",'' @ [13, 10]\<close>
  using csv_rows[of "[ustr ''dQw4w9WgXcQ'', [97, 34, 98, 44, 99]]" None True example_world
      "[97, 34, 98, 44, 99]"]
  by (simp add: export_piped_csv_def or_else_def Let_def write_file_content writerow_def
      csv_field_def csv_special_def ustr_def)

text \<open>
  C4, as the spec states it, has the prefix \<open>https://www.youtube.com/watch?v=\<close> in the
  Piped exports. The Piped exporters write \<open>https://youtube.com/watch?v=\<close>, without
  \<open>www.\<close>: this is the whole file for one playlist with one video.
\<close>

theorem piped_url_without_www:
  \<open>content (stored (snd (export_piped_json [(ustr ''n'', [ustr ''dQw4w9WgXcQ''])] None False True
                           example_world)) (ustr ''piped.json'')) =
     ustr ''{"format":"Piped","version":1,"playlists":[{"name":"n","type":"playlist","visibility":"private","videos":["https://youtube.com/watch?v=dQw4w9WgXcQ"]}]}''\<close>
  by (simp add: export_piped_json_def or_else_def Let_def write_file_content piped_payload_def
      piped_playlist_def dump_unicode_def encode_str_def escape_plain_def short_escape_def
      key_separator_def newline_indent_def str_int_def dec.simps ustr_def)

text \<open>
  C4, amended: every video URL in the Piped JSON exports, plain and chunked, is
  \<open>https://youtube.com/watch?v=\<close> followed by the video ID, and every line of the URL
  list is \<open>https://www.youtube.com/watch?v=\<close> followed by the video ID, for every video
  ID of the input, in input order.
\<close>

theorem watch_urls:
  "content (stored (snd (export_piped_json playlists out_path pretty quiet w))
             (fst (export_piped_json playlists out_path pretty quiet w))) =
     dump_unicode pretty
       (JObj [(ustr ''format'', JStr (ustr ''Piped'')), (ustr ''version'', JInt 1),
              (ustr ''playlists'',
               JArr (map (\<lambda>(name, vids).
                  JObj [(ustr ''name'', JStr name),
                        (ustr ''type'', JStr (ustr ''playlist'')),
                        (ustr ''visibility'', JStr (ustr ''private'')),
                        (ustr ''videos'',
                         JArr (map (\<lambda>v. JStr (ustr ''https://youtube.com/watch?v='' @ v)) vids))])
                  playlists))]) \<and>
   (0 < N \<longrightarrow>
      (\<forall>k<chunk_count N (length vids).
         content (stored (snd (export_piped_json_split [(name, vids)] base_out (int N) split_dir
                                 pretty quiet w))
                   (path_join (chunk_dir base_out split_dir)
                      (chunk_name (chunk_base base_out) name k))) =
           dump_unicode pretty
             (JObj [(ustr ''format'', JStr (ustr ''Piped'')), (ustr ''version'', JInt 1),
                    (ustr ''playlists'',
                     JArr [JObj [(ustr ''name'', JStr name),
                                 (ustr ''type'', JStr (ustr ''playlist'')),
                                 (ustr ''visibility'', JStr (ustr ''private'')),
                                 (ustr ''videos'',
                                  JArr (map (\<lambda>v. JStr (ustr ''https://youtube.com/watch?v='' @ v))
                                          (take N (drop (k * N) vids))))]])]))) \<and>
   content (stored (snd (export_urls video_ids out_path quiet w))
             (fst (export_urls video_ids out_path quiet w))) =
     concat (map (\<lambda>vid. ustr ''https://www.youtube.com/watch?v='' @ vid @ [10]) video_ids)"
proof -
  have 1: "content (stored (snd (export_piped_json playlists out_path pretty quiet w))
             (fst (export_piped_json playlists out_path pretty quiet w))) =
     dump_unicode pretty (piped_payload playlists)"
    by (simp add: export_piped_json_def Let_def write_file_content)
  have 2: "0 < N \<Longrightarrow> k < chunk_count N (length vids) \<Longrightarrow>
         content (stored (snd (export_piped_json_split [(name, vids)] base_out (int N) split_dir
                                 pretty quiet w))
                   (path_join (chunk_dir base_out split_dir)
                      (chunk_name (chunk_base base_out) name k))) =
           chunk_text pretty name vids N k" for k
    using content_chunks[OF chunk_base_no_sep, of 0 k]
    by (simp add: single_playlist_world)
  have 3: "content (stored (snd (export_urls video_ids out_path quiet w))
             (fst (export_urls video_ids out_path quiet w))) =
     concat (map (\<lambda>vid. ustr ''https://www.youtube.com/watch?v='' @ vid @ [10]) video_ids)"
    by (simp add: export_urls_def Let_def write_file_content)
  from 1 2 3 show ?thesis
    unfolding piped_payload_def piped_playlist_def chunk_text_def by blast
qed

text \<open>
  C4, amended, at one video: the line of the URL list and the file of the chunked
  export.
\<close>

theorem watch_urls_witness:
  \<open>0 < (1::nat) \<and>
   content (stored (snd (export_urls [ustr ''dQw4w9WgXcQ''] None True example_world))
      (ustr ''urls.txt'')) = ustr ''https://www.youtube.com/watch?v=dQw4w9WgXcQ'' @ [10] \<and>
   content (stored (snd (export_piped_json_split [(ustr ''n'', [ustr ''dQw4w9WgXcQ''])]
                           (ustr ''piped.json'') 1 None False True example_world))
      (ustr ''chunks/piped/piped_n_001.json'')) =
     ustr ''{"format":"Piped","version":1,"playlists":[{"name":"n","type":"playlist","visibility":"private","videos":["https://youtube.com/watch?v=dQw4w9WgXcQ"]}]}''\<close>
proof -
  have c: "chunk_count 1 (length [ustr ''dQw4w9WgXcQ'']) = 1" by (simp add: chunk_count_def)
  have p: "path_join (ustr ''chunks/piped'') (chunk_name (ustr ''piped'') (ustr ''n'') 0) =
           ustr ''chunks/piped/piped_n_001.json''"
    by (simp add: path_join_def chunk_name_def sanitize_name_def strip_chars_def name_char_def
        fmt03_def dec.simps ustr_def numeral_2_eq_2)
  have i: "int 1 = 1" by simp
  note T = watch_urls[of "[]" None False True example_world 1 "[ustr ''dQw4w9WgXcQ'']"
      "ustr ''n''" "ustr ''piped.json''" None "[ustr ''dQw4w9WgXcQ'']"]
  from T have a: "content (stored (snd (export_piped_json_split [(ustr ''n'', [ustr ''dQw4w9WgXcQ''])]
                           (ustr ''piped.json'') 1 None False True example_world))
      (ustr ''chunks/piped/piped_n_001.json'')) =
     dump_unicode False
             (JObj [(ustr ''format'', JStr (ustr ''Piped'')), (ustr ''version'', JInt 1),
                    (ustr ''playlists'',
                     JArr [JObj [(ustr ''name'', JStr (ustr ''n'')),
                                 (ustr ''type'', JStr (ustr ''playlist'')),
                                 (ustr ''visibility'', JStr (ustr ''private'')),
                                 (ustr ''videos'',
                                  JArr (map (\<lambda>v. JStr (ustr ''https://youtube.com/watch?v='' @ v))
                                          (take 1 (drop (0 * 1) [ustr ''dQw4w9WgXcQ'']))))]])])"
    unfolding c piped_chunk_dir piped_chunk_base i by (simp add: p)
  from T have b: "content (stored (snd (export_urls [ustr ''dQw4w9WgXcQ''] None True example_world))
      (ustr ''urls.txt'')) = ustr ''https://www.youtube.com/watch?v=dQw4w9WgXcQ'' @ [10]"
    by (simp add: export_urls_def or_else_def Let_def ustr_def)
  show ?thesis
    unfolding a b
    by (simp add: dump_unicode_def encode_str_def escape_plain_def short_escape_def
      key_separator_def newline_indent_def str_int_def dec.simps ustr_def)
qed

section \<open>Properties of main\<close>

text \<open>
  C8, as the spec states it, has a usage error and exit status 2 when a non-subscription
  export is selected and neither a playlist URL nor an ID file is given. The run with
  \<open>-e urls\<close> and no input prints the help text and exits with status 0.
\<close>

theorem no_input_exits_0:
  "main example_env (example_args\<lparr>arg_export := Urls\<rparr>) example_world =
     (Exit 0, example_world\<lparr>console := [help_text example_env]\<rparr>) \<and>
   fst (main example_env (example_args\<lparr>arg_export := Urls\<rparr>) example_world) \<noteq> Exit 2"
  by (simp add: main_def example_args_def or_else_def print_def example_world_def)

text \<open>
  C8, amended: when a non-subscription export mode is selected and the invocation
  supplies neither a playlist URL nor an ID file, the program prints its help text and
  exits with status 0. The test that reports the usage error with status 2 comes after
  this one in \<open>main\<close> and has the same condition, so it is never reached.
\<close>

theorem no_input_shows_help:
  assumes "arg_export a \<noteq> NewpipeSubs" "arg_playlist_url a = []"
    "arg_ids_file a = None \<or> arg_ids_file a = Some []"
  shows "main env a w = (Exit 0, print (help_text env) w)"
  using assms by (auto simp: main_def or_else_def)

text \<open>C8, amended, at the run without any argument (the export is then \<open>freetube-db\<close>).\<close>

theorem no_input_shows_help_witness:
  "arg_export example_args \<noteq> NewpipeSubs \<and> arg_playlist_url example_args = [] \<and>
   arg_ids_file example_args = None \<and>
   main example_env example_args example_world =
     (Exit 0, print (help_text example_env) example_world)"
  using no_input_shows_help[of example_args example_env example_world]
  by (simp add: example_args_def)

section \<open>Properties of the database exporter\<close>


lemma hex_val_digit: "d < 16 \<Longrightarrow> hex_val (hex_digit d) = Some d"
  by (simp add: hex_val_def hex_digit_def)

lemma hex4_u_escape:
  assumes "n < 65536"
  shows "hex4 (drop 2 (u_escape n)) = Some n"
proof -
  define a where "a = n div 16"
  define b where "b = a div 16"
  define c where "c = b div 16"
  have n: "n = 16 * a + n mod 16" by (simp add: a_def)
  have a: "a = 16 * b + a mod 16" by (simp add: b_def)
  have b: "b = 16 * c + b mod 16" by (simp add: c_def)
  have b': "n div 256 = b" by (simp add: a_def b_def div_mult2_eq)
  have c': "n div 4096 = c" by (simp add: a_def b_def c_def div_mult2_eq)
  have c16: "c < 16" using assms c' by simp
  have "4096 * (c mod 16) + 256 * (b mod 16) + 16 * (a mod 16) + n mod 16 = n"
    using n a b c16 by simp
  then show ?thesis
    by (simp add: hex4_def u_escape_def hex_val_digit b' c' a_def[symmetric])
qed

lemma u_escape_hexs: "u_escape n = 92 # 117 # hexs n"
  by (simp add: hexs_def u_escape_def)

lemma length_hexs [simp]: "length (hexs n) = 4"
  by (simp add: hexs_def u_escape_def)

lemma hex4_hexs: "n < 65536 \<Longrightarrow> hex4 (hexs n) = Some n"
  unfolding hexs_def by (rule hex4_u_escape)

lemma scan_quote: "scanstring acc (34 # t) = Some (acc, t)"
  by (simp add: scanstring.simps)

lemma scan_short:
  "short_escape c = Some e \<Longrightarrow> scanstring acc (e @ t) = scanstring (acc @ [c]) t"
  by (auto simp: short_escape_def scanstring.simps unescape_def split: if_splits)

lemma scan_raw:
  "32 \<le> c \<Longrightarrow> c \<noteq> 34 \<Longrightarrow> c \<noteq> 92 \<Longrightarrow> scanstring acc (c # t) = scanstring (acc @ [c]) t"
  by (simp add: scanstring.simps)

lemma scan_u:
  assumes "n < 65536" "\<not> is_high n"
  shows "scanstring acc (u_escape n @ t) = scanstring (acc @ [n]) t"
  using assms by (simp add: u_escape_hexs scanstring.simps hex4_hexs)

lemma scan_pair:
  assumes "is_high h" "is_low l"
  shows "scanstring acc (u_escape h @ u_escape l @ t) = scanstring (acc @ [pair_char h l]) t"
proof -
  have h: "h < 65536" and l: "l < 65536" using assms by (simp_all add: is_high_def is_low_def)
  show ?thesis
    using assms by (simp add: u_escape_hexs scanstring.simps hex4_hexs[OF h] hex4_hexs[OF l])
qed

lemma scan_lone_high:
  assumes "is_high h" "no_low_escape t"
  shows "scanstring acc (u_escape h @ t) = scanstring (acc @ [h]) t"
proof -
  have h: "h < 65536" using assms by (simp add: is_high_def)
  show ?thesis
  proof (cases "take 2 t = [92, 117]")
    case False
    then show ?thesis using assms by (simp add: u_escape_hexs scanstring.simps hex4_hexs[OF h])
  next
    case True
    then obtain n2 where "hex4 (take 4 (drop 2 t)) = Some n2" "\<not> is_low n2"
      using assms(2) by (auto simp: no_low_escape_def)
    then show ?thesis
      using assms True by (simp add: u_escape_hexs scanstring.simps hex4_hexs[OF h])
  qed
qed

lemma no_low_quote: "no_low_escape (34 # t)"
  by (simp add: no_low_escape_def)

lemma is_high_hi_unit: "is_high (hi_unit c)"
  by (simp add: is_high_def hi_unit_def)

lemma is_low_lo_unit: "is_low (lo_unit c)"
  by (simp add: is_low_def lo_unit_def)

lemma no_low_escape_ascii:
  assumes "\<not> is_low l"
  shows "no_low_escape (escape_ascii l @ t)"
proof (cases "short_escape l")
  case (Some e)
  then show ?thesis
    by (auto simp: escape_ascii_def no_low_escape_def short_escape_def split: if_splits)
next
  case None
  then have l92: "l \<noteq> 92" by (auto simp: short_escape_def)
  show ?thesis
  proof (cases "32 \<le> l \<and> l \<le> 126")
    case True
    then show ?thesis using None l92 by (simp add: escape_ascii_def no_low_escape_def)
  next
    case False
    show ?thesis
    proof (cases "l < 65536")
      case True
      then show ?thesis using None False assms
        by (simp add: escape_ascii_def no_low_escape_def u_escape_hexs hex4_hexs)
    next
      case b: False
      have "hi_unit l < 65536" "\<not> is_low (hi_unit l)"
        using is_high_hi_unit[of l] by (simp_all add: is_high_def is_low_def)
      then show ?thesis using None False b
        by (simp add: escape_ascii_def no_low_escape_def u_escape_hexs hex4_hexs Let_def
            hi_unit_def)
    qed
  qed
qed

lemma esc_simps [simp]: "esc [] = []" "esc (c # r) = escape_ascii c @ esc r"
  by (simp_all add: esc_def)

lemma escape_ascii_big:
  "65536 \<le> c \<Longrightarrow> escape_ascii c = u_escape (hi_unit c) @ u_escape (lo_unit c)"
  by (simp add: escape_ascii_def short_escape_def hi_unit_def lo_unit_def Let_def)

lemma escape_ascii_surrogate:
  "is_high c \<or> is_low c \<Longrightarrow> escape_ascii c = u_escape c"
  by (auto simp: escape_ascii_def short_escape_def is_high_def is_low_def)

lemma scan_escape_ascii:
  assumes "c < 65536" "\<not> is_high c"
  shows "scanstring acc (escape_ascii c @ t) = scanstring (acc @ [c]) t"
proof (cases "short_escape c")
  case (Some e)
  then show ?thesis by (simp add: escape_ascii_def scan_short)
next
  case None
  then have "c \<noteq> 34" "c \<noteq> 92" by (auto simp: short_escape_def)
  then show ?thesis using None assms
    by (simp add: escape_ascii_def scan_raw scan_u)
qed

lemma scanstring_esc:
  "scanstring acc (esc s @ 34 # rest) = Some (acc @ comb s, rest)"
proof (induction s arbitrary: acc rule: comb.induct)
  case 1
  then show ?case by (simp add: scan_quote)
next
  case (2 c r)
  show ?case
  proof (cases "65536 \<le> c")
    case True
    then show ?thesis
      using 2(1)[OF True]
      by (simp add: escape_ascii_big scan_pair is_high_hi_unit is_low_lo_unit)
  next
    case small: False
    show ?thesis
    proof (cases "is_high c")
      case False
      then show ?thesis using small 2(4)[OF small False]
        by (simp add: scan_escape_ascii)
    next
      case True
      note e = escape_ascii_surrogate[of c]
      show ?thesis
      proof (cases r)
        case Nil
        then show ?thesis using True small e
          by (simp add: scan_lone_high no_low_quote scan_quote)
      next
        case (Cons l r')
        show ?thesis
        proof (cases "is_low l")
          case low: True
          have "escape_ascii l = u_escape l" using low by (simp add: escape_ascii_surrogate)
          then show ?thesis using True small e low Cons 2(2)[OF small True Cons low]
            by (simp add: scan_pair)
        next
          case nlow: False
          have "no_low_escape (escape_ascii l @ esc r' @ 34 # rest)"
            using nlow by (rule no_low_escape_ascii)
          then show ?thesis using True small e nlow Cons 2(3)[OF small True Cons nlow]
            by (simp add: scan_lone_high)
        qed
      qed
    qed
  qed
qed

lemma comb_id:
  "list_all (\<lambda>c. c < 65536 \<and> \<not> is_high c) s \<Longrightarrow> comb s = s"
  by (induction s) simp_all

lemma dec_digits: "c \<in> set (dec n) \<Longrightarrow> is_dig c"
proof (induction n rule: dec.induct)
  case (1 n)
  show ?case
  proof (cases "n < 10")
    case True
    then have "dec n = [48 + n]" by (subst dec.simps) simp
    then show ?thesis using 1(2) True by (simp add: is_dig_def)
  next
    case False
    then have "dec n = dec (n div 10) @ [48 + n mod 10]" by (subst dec.simps) simp
    then have "c \<in> set (dec (n div 10)) \<or> c = 48 + n mod 10" using 1(2) by auto
    moreover have "is_dig (48 + n mod 10)" by (simp add: is_dig_def)
    ultimately show ?thesis using 1(1)[OF False] by blast
  qed
qed

lemma dec_no_leading_zero: "1 < length (dec n) \<Longrightarrow> hd (dec n) \<noteq> 48"
proof (induction n rule: dec.induct)
  case (1 n)
  show ?case
  proof (cases "n < 10")
    case True
    then have "dec n = [48 + n]" by (subst dec.simps) simp
    then show ?thesis using 1(2) by simp
  next
    case False
    then have d: "dec n = dec (n div 10) @ [48 + n mod 10]" by (subst dec.simps) simp
    have ne: "dec (n div 10) \<noteq> []" by (rule dec_not_Nil)
    then have h: "hd (dec n) = hd (dec (n div 10))" using d by simp
    show ?thesis
    proof (cases "n div 10 < 10")
      case True
      then have "dec (n div 10) = [48 + n div 10]" by (subst dec.simps) simp
      moreover have "n div 10 \<noteq> 0" using False by simp
      ultimately show ?thesis using h by simp
    next
      case big: False
      then have "dec (n div 10) = dec (n div 10 div 10) @ [48 + n div 10 mod 10]"
        by (subst dec.simps) simp
      moreover have "dec (n div 10 div 10) \<noteq> []" by (rule dec_not_Nil)
      ultimately have "1 < length (dec (n div 10))" by (cases "dec (n div 10 div 10)") simp_all
      then show ?thesis using 1(1)[OF False] h by simp
    qed
  qed
qed

lemma delim_no_digit: "delim rest \<Longrightarrow> takeWhile is_dig rest = [] \<and> dropWhile is_dig rest = rest"
  by (cases rest) (auto simp: delim_def is_dig_def)

lemma takeWhile_dec:
  assumes "delim rest"
  shows "takeWhile is_dig (dec n @ rest) = dec n" "dropWhile is_dig (dec n @ rest) = rest"
proof -
  have a: "\<And>x. x \<in> set (dec n) \<Longrightarrow> is_dig x" by (rule dec_digits)
  show "takeWhile is_dig (dec n @ rest) = dec n"
    using delim_no_digit[OF assms] by (simp add: takeWhile_append2[OF a])
  show "dropWhile is_dig (dec n @ rest) = rest"
    using delim_no_digit[OF assms] by (simp add: dropWhile_append2[OF a])
qed

lemma hd_dec_digit: "is_dig (hd (dec n))"
  using dec_digits[of "hd (dec n)" n] dec_not_Nil[of n] by simp

lemma scan_number_nat:
  assumes "delim rest"
  shows "scan_number (dec n @ rest) = Some (JInt (int n), rest)"
proof -
  have h: "hd (dec n @ rest) \<noteq> 45"
    using hd_dec_digit[of n] dec_not_Nil[of n] by (auto simp: is_dig_def)
  have z: "\<not> (1 < length (dec n) \<and> hd (dec n) = 48)"
    using dec_no_leading_zero[of n] by blast
  have r: "rest = [] \<or> (hd rest \<noteq> 46 \<and> hd rest \<noteq> 101 \<and> hd rest \<noteq> 69)"
    using assms by (auto simp: delim_def)
  show ?thesis
    using h z r
    by (auto simp: scan_number_def Let_def takeWhile_dec[OF assms] dec_not_Nil undec_dec)
qed

lemma scan_number_neg:
  assumes "delim rest"
  shows "scan_number (45 # dec n @ rest) = Some (JInt (- int n), rest)"
proof -
  have z: "\<not> (1 < length (dec n) \<and> hd (dec n) = 48)"
    using dec_no_leading_zero[of n] by blast
  have r: "rest = [] \<or> (hd rest \<noteq> 46 \<and> hd rest \<noteq> 101 \<and> hd rest \<noteq> 69)"
    using assms by (auto simp: delim_def)
  show ?thesis
    using z r
    by (auto simp: scan_number_def Let_def takeWhile_dec[OF assms] dec_not_Nil undec_dec)
qed

lemma scan_number_int:
  assumes "delim rest"
  shows "scan_number (str_int i @ rest) = Some (JInt i, rest)"
proof (cases "i < 0")
  case True
  then show ?thesis using scan_number_neg[OF assms, of "nat (- i)"] by (simp add: str_int_def)
next
  case False
  then show ?thesis using scan_number_nat[OF assms, of "nat i"] by (simp add: str_int_def)
qed

lemma encode_str_esc: "encode_str True s = 34 # esc s @ [34]"
  by (simp add: encode_str_def esc_def)

lemma scan_value_str:
  "scan_value (Suc n) (encode_str True s @ rest) = Some (JStr (comb s), rest)"
  by (simp add: encode_str_esc scanstring_esc)

lemma scan_value_null: "scan_value (Suc n) (ustr ''null'' @ rest) = Some (JNull, rest)"
  by (simp add: starts_def ustr_def)

lemma scan_value_true: "scan_value (Suc n) (ustr ''true'' @ rest) = Some (JBool True, rest)"
  by (simp add: starts_def ustr_def)

lemma scan_value_false: "scan_value (Suc n) (ustr ''false'' @ rest) = Some (JBool False, rest)"
  by (simp add: starts_def ustr_def)

lemma scan_value_number:
  assumes "s \<noteq> []" "is_dig (hd s) \<or> (hd s = 45 \<and> tl s \<noteq> [] \<and> is_dig (hd (tl s)))"
  shows "scan_value (Suc n) s = scan_number s"
proof -
  obtain c t where s: "s = c # t" using assms(1) by (cases s) auto
  show ?thesis
  proof (cases "is_dig c")
    case True
    then show ?thesis by (auto simp: s starts_def ustr_def is_dig_def)
  next
    case False
    then obtain d u where t: "t = d # u" "is_dig d" "c = 45"
      using assms(2) s by (cases t) auto
    then show ?thesis by (auto simp: s starts_def ustr_def is_dig_def)
  qed
qed

lemma scan_value_int:
  assumes "delim rest"
  shows "scan_value (Suc n) (str_int i @ rest) = Some (JInt i, rest)"
proof -
  obtain d ds where d: "dec (nat (- i)) = d # ds" "is_dig d"
    using hd_dec_digit[of "nat (- i)"] dec_not_Nil[of "nat (- i)"]
    by (cases "dec (nat (- i))") auto
  obtain e es where e: "dec (nat i) = e # es" "is_dig e"
    using hd_dec_digit[of "nat i"] dec_not_Nil[of "nat i"]
    by (cases "dec (nat i)") auto
  have "scan_value (Suc n) (str_int i @ rest) = scan_number (str_int i @ rest)"
    using d e by (intro scan_value_number) (auto simp: str_int_def)
  then show ?thesis by (simp add: scan_number_int[OF assms])
qed

lemma starter_not_ws: "starter c \<Longrightarrow> \<not> is_ws c \<and> c \<noteq> 93 \<and> c \<noteq> 125 \<and> c \<noteq> 44 \<and> c \<noteq> 58"
  by (auto simp: starter_def is_ws_def is_dig_def)

lemma encode_start:
  "plain j \<Longrightarrow> encode True None lvl j \<noteq> [] \<and> starter (hd (encode True None lvl j))"
proof (cases j)
  case (JInt i)
  have "starter (hd (dec n))" for n using hd_dec_digit[of n] by (simp add: starter_def)
  then show ?thesis using JInt dec_not_Nil by (simp add: str_int_def starter_def)
qed (simp_all add: starter_def ustr_def encode_str_def)

lemma skip_ws_encode:
  assumes "plain j"
  shows "skip_ws (encode True None lvl j @ r) = encode True None lvl j @ r"
proof -
  obtain c t where "encode True None lvl j = c # t" "starter c"
    using encode_start[OF assms, of lvl] by (cases "encode True None lvl j") auto
  then show ?thesis using starter_not_ws[of c] by (simp add: skip_ws_def)
qed

lemma skip_ws_delim:
  "c = 44 \<or> c = 93 \<or> c = 125 \<or> c = 58 \<or> c = 34 \<Longrightarrow> skip_ws (c # r) = c # r"
  by (auto simp: skip_ws_def is_ws_def)

lemma join_Cons: "join sep (x # xs) = x @ (if xs = [] then [] else sep @ join sep xs)"
  by (cases xs) simp_all

lemma skip_ws_join:
  assumes "vs \<noteq> []" "\<forall>v\<in>set vs. plain v"
  shows "skip_ws (join [44] (map (encode True None l) vs) @ r) =
         join [44] (map (encode True None l) vs) @ r"
proof -
  obtain v vs' where vs: "vs = v # vs'" using assms(1) by (cases vs) auto
  then have "plain v" using assms(2) by simp
  from skip_ws_encode[OF this] show ?thesis by (simp add: vs join_Cons)
qed

lemma scan_array_join:
  "\<forall>v\<in>set vs. reads_back l v \<Longrightarrow> vs \<noteq> [] \<Longrightarrow>
   sum_list (map (\<lambda>v. Suc (need v)) vs) \<le> fuel \<Longrightarrow>
   scan_array fuel acc (join [44] (map (encode True None l) vs) @ 93 # rest) =
     Some (JArr (acc @ map jcomb vs), rest)"
proof (induction vs arbitrary: acc fuel)
  case Nil
  then show ?case by simp
next
  case (Cons v vs)
  from Cons.prems(3) obtain n where fuel: "fuel = Suc n"
    and n: "need v + sum_list (map (\<lambda>v. Suc (need v)) vs) \<le> n"
    by (cases fuel) auto
  have rb: "reads_back l v" using Cons.prems(1) by simp
  then have pv: "plain v" by (simp add: reads_back_def)
  show ?case
  proof (cases "vs = []")
    case True
    have "delim (93 # rest)" by (simp add: delim_def)
    then have "scan_value n (encode True None l v @ 93 # rest) = Some (jcomb v, 93 # rest)"
      using rb n by (simp add: reads_back_def)
    then show ?thesis using True by (simp add: fuel skip_ws_delim)
  next
    case False
    let ?t = "join [44] (map (encode True None l) vs) @ 93 # rest"
    have "delim (44 # ?t)" by (simp add: delim_def)
    then have a: "scan_value n (encode True None l v @ 44 # ?t) = Some (jcomb v, 44 # ?t)"
      using rb n by (simp add: reads_back_def)
    have pl: "\<forall>v\<in>set vs. plain v" using Cons.prems(1) by (simp add: reads_back_def)
    have sk: "skip_ws ?t = ?t" using skip_ws_join[OF False pl] by simp
    have ih: "scan_array n (acc @ [jcomb v]) ?t = Some (JArr ((acc @ [jcomb v]) @ map jcomb vs), rest)"
      using Cons.IH[of n "acc @ [jcomb v]"] Cons.prems(1) False n by simp
    show ?thesis using False a ih
      by (simp add: fuel join_Cons skip_ws_delim sk)
  qed
qed

lemma member_text: "member l kv = 34 # esc (fst kv) @ 34 # 58 # encode True None l (snd kv)"
  by (simp add: member_def encode_str_esc key_separator_def)

lemma skip_ws_members:
  assumes "kvs \<noteq> []"
  shows "skip_ws (join [44] (map (member l) kvs) @ r) = join [44] (map (member l) kvs) @ r"
proof -
  obtain kv kvs' where "kvs = kv # kvs'" using assms by (cases kvs) auto
  then show ?thesis by (simp add: join_Cons member_text skip_ws_delim)
qed

lemma scan_member:
  assumes "reads_back l (snd kv)" "need (snd kv) \<le> n" "d = 44 \<or> d = 125"
  shows "scan_object (Suc n) acc (member l kv @ d # t) =
     (if d = 125 then Some (JObj (acc @ [(comb (fst kv), jcomb (snd kv))]), t)
      else scan_object n (acc @ [(comb (fst kv), jcomb (snd kv))]) (skip_ws t))"
proof -
  have "delim (d # t)" using assms(3) by (auto simp: delim_def)
  then have v: "scan_value n (encode True None l (snd kv) @ d # t) = Some (jcomb (snd kv), d # t)"
    using assms(1,2) by (simp add: reads_back_def)
  have p: "plain (snd kv)" using assms(1) by (simp add: reads_back_def)
  have s: "scanstring [] (esc (fst kv) @ 34 # 58 # encode True None l (snd kv) @ d # t) =
           Some (comb (fst kv), 58 # encode True None l (snd kv) @ d # t)"
    using scanstring_esc[of "[]" "fst kv"] by simp
  show ?thesis
    using assms(3) v s
    by (auto simp: member_text skip_ws_delim skip_ws_encode[OF p])
qed

lemma scan_object_join:
  "\<forall>kv\<in>set kvs. reads_back l (snd kv) \<Longrightarrow> kvs \<noteq> [] \<Longrightarrow>
   sum_list (map (\<lambda>kv. Suc (need (snd kv))) kvs) \<le> fuel \<Longrightarrow>
   scan_object fuel acc (join [44] (map (member l) kvs) @ 125 # rest) =
     Some (JObj (acc @ map (\<lambda>kv. (comb (fst kv), jcomb (snd kv))) kvs), rest)"
proof (induction kvs arbitrary: acc fuel)
  case Nil
  then show ?case by simp
next
  case (Cons kv kvs)
  from Cons.prems(3) obtain n where fuel: "fuel = Suc n"
    and n: "need (snd kv) + sum_list (map (\<lambda>kv. Suc (need (snd kv))) kvs) \<le> n"
    by (cases fuel) auto
  have rb: "reads_back l (snd kv)" using Cons.prems(1) by simp
  have nv: "need (snd kv) \<le> n" using n by simp
  show ?case
  proof (cases "kvs = []")
    case True
    then show ?thesis using scan_member[OF rb nv, of 125 acc rest] by (simp add: fuel)
  next
    case False
    let ?t = "join [44] (map (member l) kvs) @ 125 # rest"
    have sk: "skip_ws ?t = ?t" using skip_ws_members[OF False] by simp
    have ih: "scan_object n (acc @ [(comb (fst kv), jcomb (snd kv))]) ?t =
        Some (JObj ((acc @ [(comb (fst kv), jcomb (snd kv))]) @
                      map (\<lambda>kv. (comb (fst kv), jcomb (snd kv))) kvs), rest)"
      using Cons.IH[of n "acc @ [(comb (fst kv), jcomb (snd kv))]"] Cons.prems(1) False n by simp
    show ?thesis using False ih scan_member[OF rb nv, of 44 acc ?t]
      by (simp add: fuel join_Cons sk)
  qed
qed

lemma reads_back_plain: "plain j \<Longrightarrow> reads_back l j"
proof (induction j arbitrary: l)
  case JNull
  show ?case unfolding reads_back_def
  proof (intro conjI allI impI)
    fix fuel rest assume "need JNull \<le> fuel"
    then obtain n where "fuel = Suc n" by (cases fuel) auto
    then show "scan_value fuel (encode True None l JNull @ rest) = Some (jcomb JNull, rest)"
      by (simp only: encode.simps jcomb.simps scan_value_null)
  qed simp
next
  case (JBool b)
  show ?case unfolding reads_back_def
  proof (intro conjI allI impI)
    fix fuel rest assume "need (JBool b) \<le> fuel"
    then obtain n where "fuel = Suc n" by (cases fuel) auto
    then show "scan_value fuel (encode True None l (JBool b) @ rest) = Some (jcomb (JBool b), rest)"
      by (cases b) (simp_all only: encode.simps jcomb.simps scan_value_true scan_value_false if_True if_False)
  qed simp
next
  case (JInt i)
  show ?case unfolding reads_back_def
  proof (intro conjI allI impI)
    fix fuel rest assume "need (JInt i) \<le> fuel" and d: "delim rest"
    then obtain n where "fuel = Suc n" by (cases fuel) auto
    then show "scan_value fuel (encode True None l (JInt i) @ rest) = Some (jcomb (JInt i), rest)"
      by (simp only: encode.simps jcomb.simps scan_value_int[OF d])
  qed simp
next
  case (JFloat r)
  then show ?case by simp
next
  case (JStr s)
  show ?case unfolding reads_back_def
  proof (intro conjI allI impI)
    fix fuel rest assume "need (JStr s) \<le> fuel"
    then obtain n where "fuel = Suc n" by (cases fuel) auto
    then show "scan_value fuel (encode True None l (JStr s) @ rest) = Some (jcomb (JStr s), rest)"
      by (simp only: encode.simps jcomb.simps scan_value_str)
  qed simp
next
  case (JArr vs)
  have rb: "\<forall>v\<in>set vs. reads_back (Suc l) v"
    using JArr by (simp add: list_all_iff)
  show ?case unfolding reads_back_def
  proof (intro conjI allI impI)
    show "plain (JArr vs)" by (rule JArr.prems)
  next
    fix fuel rest assume f: "need (JArr vs) \<le> fuel"
    then obtain n where fuel: "fuel = Suc n" and n: "sum_list (map (\<lambda>v. Suc (need v)) vs) \<le> n"
      by (cases fuel) auto
    show "scan_value fuel (encode True None l (JArr vs) @ rest) = Some (jcomb (JArr vs), rest)"
    proof (cases "vs = []")
      case True
      then show ?thesis by (simp add: fuel ustr_def skip_ws_delim)
    next
      case False
      have pl: "\<forall>v\<in>set vs. plain v" using rb by (simp add: reads_back_def)
      let ?t = "join [44] (map (encode True None (Suc l)) vs) @ 93 # rest"
      have sk: "skip_ws ?t = ?t" using skip_ws_join[OF False pl] by simp
      obtain v vs' where vs: "vs = v # vs'" using False by (cases vs) auto
      then have "plain v" using pl by simp
      then have "?t \<noteq> [] \<and> hd ?t \<noteq> 93"
        using encode_start[of v "Suc l"] starter_not_ws[of "hd (encode True None (Suc l) v)"]
        by (simp add: vs join_Cons)
      then show ?thesis
        using False scan_array_join[OF rb False n, of "[]" rest]
        by (simp add: fuel newline_indent_def sk)
    qed
  qed
next
  case (JObj kvs)
  have rb: "\<forall>kv\<in>set kvs. reads_back (Suc l) (snd kv)"
  proof
    fix kv assume kv: "kv \<in> set kvs"
    have s: "snd kv \<in> Basic_BNFs.snds kv" by (cases kv) simp
    have "plain (snd kv)" using JObj.prems kv by (simp add: list_all_iff)
    then show "reads_back (Suc l) (snd kv)" using JObj.IH[OF kv s] by simp
  qed
  show ?case unfolding reads_back_def
  proof (intro conjI allI impI)
    show "plain (JObj kvs)" by (rule JObj.prems)
  next
    fix fuel rest assume f: "need (JObj kvs) \<le> fuel"
    then obtain n where fuel: "fuel = Suc n"
      and n: "sum_list (map (\<lambda>kv. Suc (need (snd kv))) kvs) \<le> n"
      by (cases fuel) auto
    show "scan_value fuel (encode True None l (JObj kvs) @ rest) = Some (jcomb (JObj kvs), rest)"
    proof (cases "kvs = []")
      case True
      then show ?thesis by (simp add: fuel ustr_def skip_ws_delim)
    next
      case False
      let ?t = "join [44] (map (member (Suc l)) kvs) @ 125 # rest"
      have sk: "skip_ws ?t = ?t" using skip_ws_members[OF False] by simp
      obtain kv kvs' where "kvs = kv # kvs'" using False by (cases kvs) auto
      then have "?t \<noteq> [] \<and> hd ?t \<noteq> 125" by (simp add: join_Cons member_text)
      moreover have e: "encode True None l (JObj kvs) @ rest = 123 # ?t"
        using False by (simp add: newline_indent_def member_def[abs_def])
      ultimately show ?thesis
        using scan_object_join[OF rb False n, of "[]" rest]
        by (simp only: e fuel) (simp add: sk)
    qed
  qed
qed

lemma length_join:
  "xs \<noteq> [] \<Longrightarrow> length (join sep xs) + length sep = sum_list (map (\<lambda>x. length x + length sep) xs)"
proof (induction xs)
  case Nil
  then show ?case by simp
next
  case (Cons x xs)
  show ?case
  proof (cases "xs = []")
    case True
    then show ?thesis by simp
  next
    case False
    then have "join sep (x # xs) = x @ sep @ join sep xs" by (simp add: join_Cons)
    then show ?thesis using Cons.IH[OF False] by simp
  qed
qed

lemma sum_list_mono_map:
  "(\<And>x. x \<in> set xs \<Longrightarrow> f x \<le> (g x :: nat)) \<Longrightarrow> sum_list (map f xs) \<le> sum_list (map g xs)"
proof (induction xs)
  case Nil
  then show ?case by simp
next
  case (Cons a xs)
  have "f a \<le> g a" using Cons.prems by simp
  moreover have "sum_list (map f xs) \<le> sum_list (map g xs)" using Cons by simp
  ultimately show ?case by simp
qed

lemma length_dec_pos: "1 \<le> length (dec n)"
  using dec_not_Nil[of n] by (cases "dec n") auto

lemma need_le_length: "plain j \<Longrightarrow> need j \<le> length (encode True None l j)"
proof (induction j arbitrary: l)
  case JNull
  show ?case by (simp add: ustr_def)
next
  case (JBool b)
  show ?case by (simp add: ustr_def)
next
  case (JInt i)
  show ?case using length_dec_pos[of "nat i"] length_dec_pos[of "nat (- i)"]
    by (simp add: str_int_def)
next
  case (JFloat r)
  then show ?case by simp
next
  case (JStr s)
  show ?case by (simp add: encode_str_def)
next
  case (JArr vs)
  show ?case
  proof (cases "vs = []")
    case True
    then show ?thesis by (simp add: ustr_def)
  next
    case False
    have "\<And>v. v \<in> set vs \<Longrightarrow> Suc (need v) \<le> length (encode True None (Suc l) v) + length [44::nat]"
      using JArr by (simp add: list_all_iff)
    then have "sum_list (map (\<lambda>v. Suc (need v)) vs) \<le>
               sum_list (map (\<lambda>v. length (encode True None (Suc l) v) + length [44::nat]) vs)"
      by (rule sum_list_mono_map)
    also have "\<dots> = sum_list (map (\<lambda>x. length x + length [44::nat]) (map (encode True None (Suc l)) vs))"
      by (simp only: map_map o_def)
    also have "\<dots> = length (join [44] (map (encode True None (Suc l)) vs)) + length [44::nat]"
      using False by (intro length_join[symmetric]) simp
    finally have "sum_list (map (\<lambda>v. Suc (need v)) vs) \<le>
        length (join [44] (map (encode True None (Suc l)) vs)) + 1" by simp
    moreover have "encode True None l (JArr vs) =
        91 # join [44] (map (encode True None (Suc l)) vs) @ [93]"
      using False by (simp add: newline_indent_def)
    ultimately show ?thesis by simp
  qed
next
  case (JObj kvs)
  show ?case
  proof (cases "kvs = []")
    case True
    then show ?thesis by (simp add: ustr_def)
  next
    case False
    have "\<And>kv. kv \<in> set kvs \<Longrightarrow> Suc (need (snd kv)) \<le> length (member (Suc l) kv) + length [44::nat]"
    proof -
      fix kv assume kv: "kv \<in> set kvs"
      have s: "snd kv \<in> Basic_BNFs.snds kv" by (cases kv) simp
      have "plain (snd kv)" using JObj.prems kv by (simp add: list_all_iff)
      from JObj.IH[OF kv s this, of "Suc l"]
      show "Suc (need (snd kv)) \<le> length (member (Suc l) kv) + length [44::nat]"
        by (simp add: member_text)
    qed
    then have "sum_list (map (\<lambda>kv. Suc (need (snd kv))) kvs) \<le>
               sum_list (map (\<lambda>kv. length (member (Suc l) kv) + length [44::nat]) kvs)"
      by (rule sum_list_mono_map)
    also have "\<dots> = sum_list (map (\<lambda>x. length x + length [44::nat]) (map (member (Suc l)) kvs))"
      by (simp only: map_map o_def)
    also have "\<dots> = length (join [44] (map (member (Suc l)) kvs)) + length [44::nat]"
      using False by (intro length_join[symmetric]) simp
    finally have "sum_list (map (\<lambda>kv. Suc (need (snd kv))) kvs) \<le>
        length (join [44] (map (member (Suc l)) kvs)) + 1" by simp
    moreover have "encode True None l (JObj kvs) = 123 # join [44] (map (member (Suc l)) kvs) @ [125]"
      using False by (simp add: newline_indent_def member_def[abs_def])
    ultimately show ?thesis by simp
  qed
qed

lemma loads_dump_ascii:
  assumes "plain j"
  shows "loads (dump_ascii j) = Some (jcomb j)"
proof -
  let ?s = "encode True None 0 j"
  have sk: "skip_ws ?s = ?s" using skip_ws_encode[OF assms, of 0 "[]"] by simp
  have "need j \<le> Suc (length ?s)" using need_le_length[OF assms, of 0] by simp
  moreover have "delim []" by (simp add: delim_def)
  ultimately have "scan_value (Suc (length ?s)) (?s @ []) = Some (jcomb j, [])"
    using reads_back_plain[OF assms, of 0] unfolding reads_back_def by blast
  then have sv: "scan_value (Suc (length ?s)) ?s = Some (jcomb j, [])"
    by (simp only: append_Nil2)
  have e: "skip_ws [] = []" by (simp add: skip_ws_def)
  show ?thesis unfolding loads_def dump_ascii_def sk sv by (simp add: e)
qed

lemma printable_hex_digit: "d < 16 \<Longrightarrow> printable (hex_digit d)"
  by (simp add: printable_def hex_digit_def)

lemma printable_u_escape:
  assumes "c \<in> set (u_escape n)"
  shows "printable c"
proof -
  have a: "printable (hex_digit (n div 4096 mod 16))" by (rule printable_hex_digit) simp
  have b: "printable (hex_digit (n div 256 mod 16))" by (rule printable_hex_digit) simp
  have d: "printable (hex_digit (n div 16 mod 16))" by (rule printable_hex_digit) simp
  have e: "printable (hex_digit (n mod 16))" by (rule printable_hex_digit) simp
  have f: "printable 92" "printable 117" by (simp_all add: printable_def)
  from assms have "c = 92 \<or> c = 117 \<or> c = hex_digit (n div 4096 mod 16) \<or>
     c = hex_digit (n div 256 mod 16) \<or> c = hex_digit (n div 16 mod 16) \<or>
     c = hex_digit (n mod 16)"
    by (simp add: u_escape_def)
  then show ?thesis using a b d e f by blast
qed

lemma printable_short: "short_escape x = Some e \<Longrightarrow> c \<in> set e \<Longrightarrow> printable c"
  by (simp add: short_escape_def printable_def split: if_splits) auto

lemma printable_escape_ascii:
  assumes c: "c \<in> set (escape_ascii x)"
  shows "printable c"
proof (cases "short_escape x")
  case (Some e)
  then have "escape_ascii x = e" by (simp add: escape_ascii_def)
  then show ?thesis using c printable_short[OF Some] by simp
next
  case None
  show ?thesis
  proof (cases "32 \<le> x \<and> x \<le> 126")
    case True
    then have "escape_ascii x = [x]" using None by (simp add: escape_ascii_def)
    then show ?thesis using c True by (simp add: printable_def)
  next
    case False
    show ?thesis
    proof (cases "x < 65536")
      case True
      then have "escape_ascii x = u_escape x" using None False by (auto simp: escape_ascii_def)
      then show ?thesis using c printable_u_escape by simp
    next
      case big: False
      then have "escape_ascii x = u_escape (hi_unit x) @ u_escape (lo_unit x)"
        by (simp add: escape_ascii_big)
      then have "c \<in> set (u_escape (hi_unit x)) \<or> c \<in> set (u_escape (lo_unit x))"
        using c by simp
      then show ?thesis using printable_u_escape by blast
    qed
  qed
qed

lemma printable_encode_str:
  assumes "c \<in> set (encode_str True s)"
  shows "printable c"
proof -
  from assms have "c = 34 \<or> (\<exists>x\<in>set s. c \<in> set (escape_ascii x))"
    by (auto simp: encode_str_def)
  then show ?thesis using printable_escape_ascii by (auto simp: printable_def)
qed

lemma set_join: "c \<in> set (join sep xs) \<Longrightarrow> c \<in> set sep \<or> (\<exists>x\<in>set xs. c \<in> set x)"
proof (induction xs)
  case Nil
  then show ?case by simp
next
  case (Cons x xs)
  show ?case
  proof (cases "xs = []")
    case True
    then show ?thesis using Cons.prems by simp
  next
    case False
    then have "join sep (x # xs) = x @ sep @ join sep xs" by (simp add: join_Cons)
    then have "c \<in> set x \<or> c \<in> set sep \<or> c \<in> set (join sep xs)" using Cons.prems by simp
    then show ?thesis using Cons.IH by auto
  qed
qed

lemma printable_dec: "c \<in> set (dec n) \<Longrightarrow> printable c"
  using dec_digits[of c n] by (simp add: is_dig_def printable_def)

lemma printable_str_int:
  assumes "c \<in> set (str_int i)"
  shows "printable c"
proof -
  from assms have "c = 45 \<or> c \<in> set (dec (nat (- i))) \<or> c \<in> set (dec (nat i))"
    by (auto simp: str_int_def split: if_splits)
  then show ?thesis using printable_dec by (auto simp: printable_def)
qed

lemma printable_encode:
  "plain j \<Longrightarrow> c \<in> set (encode True None l j) \<Longrightarrow> printable c"
proof (induction j arbitrary: l c)
  case JNull
  then show ?case by (auto simp: ustr_def printable_def)
next
  case (JBool b)
  then show ?case by (cases b) (auto simp: ustr_def printable_def)
next
  case (JInt i)
  then show ?case using printable_str_int by simp
next
  case (JFloat r)
  then show ?case by simp
next
  case (JStr s)
  then show ?case using printable_encode_str by simp
next
  case (JArr vs)
  show ?case
  proof (cases "vs = []")
    case True
    then show ?thesis using JArr.prems by (auto simp: ustr_def printable_def)
  next
    case False
    then have "encode True None l (JArr vs) =
        91 # join [44] (map (encode True None (Suc l)) vs) @ [93]"
      by (simp add: newline_indent_def)
    then have "c = 91 \<or> c = 93 \<or> c \<in> set (join [44] (map (encode True None (Suc l)) vs))"
      using JArr.prems(2) by auto
    then have "c = 91 \<or> c = 93 \<or> c = 44 \<or> (\<exists>v\<in>set vs. c \<in> set (encode True None (Suc l) v))"
      using set_join[of c "[44]" "map (encode True None (Suc l)) vs"] by auto
    moreover have "printable c" if "v \<in> set vs" "c \<in> set (encode True None (Suc l) v)" for v
    proof -
      have "plain v" using JArr.prems(1) that(1) by (simp add: list_all_iff)
      then show ?thesis using JArr.IH[OF that(1) _ that(2)] by simp
    qed
    ultimately show ?thesis by (auto simp: printable_def)
  qed
next
  case (JObj kvs)
  show ?case
  proof (cases "kvs = []")
    case True
    then show ?thesis using JObj.prems by (auto simp: ustr_def printable_def)
  next
    case False
    then have "encode True None l (JObj kvs) = 123 # join [44] (map (member (Suc l)) kvs) @ [125]"
      by (simp add: newline_indent_def member_def[abs_def])
    then have "c = 123 \<or> c = 125 \<or> c \<in> set (join [44] (map (member (Suc l)) kvs))"
      using JObj.prems(2) by auto
    then have "c = 123 \<or> c = 125 \<or> c = 44 \<or> (\<exists>kv\<in>set kvs. c \<in> set (member (Suc l) kv))"
      using set_join[of c "[44]" "map (member (Suc l)) kvs"] by auto
    moreover have "printable c" if kv: "kv \<in> set kvs" and c: "c \<in> set (member (Suc l) kv)" for kv
    proof -
      have s: "snd kv \<in> Basic_BNFs.snds kv" by (cases kv) simp
      have p: "plain (snd kv)" using JObj.prems(1) kv by (simp add: list_all_iff)
      have "c \<in> set (encode_str True (fst kv)) \<or> c = 58 \<or>
            c \<in> set (encode True None (Suc l) (snd kv))"
        using c by (auto simp: member_def key_separator_def)
      moreover have "printable 58" by (simp add: printable_def)
      ultimately show ?thesis using JObj.IH[OF kv s p] printable_encode_str by blast
    qed
    ultimately show ?thesis by (auto simp: printable_def)
  qed
qed

lemma pair_char_units:
  assumes "65536 \<le> c" "c < 1114112"
  shows "pair_char (hi_unit c) (lo_unit c) = c"
proof -
  define x where "x = c - 65536"
  have x: "x < 1048576" "c = 65536 + x" using assms by (simp_all add: x_def)
  have "x div 1024 < 1024" using x(1) by simp
  then have "x div 1024 mod 1024 = x div 1024" by simp
  moreover have "x div 1024 * 1024 + x mod 1024 = x" by simp
  ultimately show ?thesis
    by (simp add: pair_char_def hi_unit_def lo_unit_def x_def[symmetric] x(2))
qed

lemma comb_scalar: "list_all scalar s \<Longrightarrow> comb s = s"
proof (induction s)
  case Nil
  then show ?case by simp
next
  case (Cons c s)
  then have c: "scalar c" and s: "comb s = s" by simp_all
  show ?case
  proof (cases "65536 \<le> c")
    case True
    then show ?thesis using c s pair_char_units[of c] by (simp add: scalar_def)
  next
    case False
    have "\<not> is_high c" using c by (auto simp: scalar_def is_high_def)
    then show ?thesis using False s by simp
  qed
qed

lemma jcomb_valid: "valid_json j \<Longrightarrow> jcomb j = j"
proof (induction j)
  case (JStr s)
  then show ?case by (simp add: comb_scalar)
next
  case (JArr vs)
  then have "map jcomb vs = map (\<lambda>v. v) vs"
    by (intro map_cong) (simp_all add: list_all_iff)
  then show ?case by simp
next
  case (JObj kvs)
  have "(comb (fst kv), jcomb (snd kv)) = kv" if kv: "kv \<in> set kvs" for kv
  proof -
    have s: "snd kv \<in> Basic_BNFs.snds kv" by (cases kv) simp
    have "list_all scalar (fst kv)" "valid_json (snd kv)"
      using JObj.prems kv by (simp_all add: list_all_iff)
    then show ?thesis using JObj.IH[OF kv s] by (simp add: comb_scalar)
  qed
  then have "map (\<lambda>kv. (comb (fst kv), jcomb (snd kv))) kvs = map (\<lambda>kv. kv) kvs"
    by (intro map_cong) simp_all
  then show ?case by simp
qed simp_all

lemma plain_asdict_video: "plain (asdict_video v)"
  by (simp add: asdict_video_def)

lemma plain_to_json_obj: "plain (to_json_obj pl)"
  by (simp add: to_json_obj_def list_all_iff plain_asdict_video)

lemma splitc_line:
  "10 \<notin> set a \<Longrightarrow> splitc (\<lambda>c. c = 10) (a @ 10 # t) = a # splitc (\<lambda>c. c = 10) t"
  by (induction a) auto

lemma file_lines_two:
  assumes "10 \<notin> set a" "10 \<notin> set b"
  shows "file_lines (a @ [10] @ b @ [10]) = [a, b]"
proof -
  have "splitc (\<lambda>c. c = 10) (a @ 10 # b @ 10 # []) = [a, b, []]"
    by (simp only: splitc_line[OF assms(1)] splitc_line[OF assms(2)] splitc.simps)
  then show ?thesis by (simp add: file_lines_def)
qed

lemma dump_no_newline: "plain j \<Longrightarrow> 10 \<notin> set (dump_ascii j)"
  using printable_encode[of j 10 0] by (auto simp: dump_ascii_def printable_def)

lemma ensure_missing_parent:
  "\<not> isdir w (parent_dir p) \<Longrightarrow> ensure_file_exists p w = Inl FileNotFoundError"
  by (simp add: ensure_file_exists_def parent_dir_def Let_def)

lemma ensure_ok:
  assumes "isdir w (parent_dir p)"
  shows "\<exists>w1. ensure_file_exists p w = Inr w1 \<and> stored w1 p = stored w p \<and>
           (\<forall>q. q \<noteq> p \<longrightarrow> files w1 q = files w q) \<and>
           w1\<lparr>files := files w\<rparr> = w"
  using assms
  by (auto simp: ensure_file_exists_def parent_dir_def Let_def open_a_def fclose_def fflush_def
      stored_def split: option.splits)

lemma fs_file_both:
  "(r :: fs_file)\<lparr>durable := d, content := c\<rparr> = \<lparr>content = c, durable = d\<rparr>"
  by (cases r) simp

lemma append_steps:
  "fclose (fst (fflush (fwrite (fwrite (fst (open_a p w1)) a) b) (snd (open_a p w1))))
     (fsync (fst (fflush (fwrite (fwrite (fst (open_a p w1)) a) b) (snd (open_a p w1))))
        (snd (fflush (fwrite (fwrite (fst (open_a p w1)) a) b) (snd (open_a p w1))))) =
   appended w1 p (a @ b)"
  by (simp add: open_a_def fwrite_def fflush_def fsync_def fclose_def appended_def stored_def
      fs_file_both)

lemma appended_eq:
  assumes "stored w1 p = stored w p" "\<forall>q. q \<noteq> p \<longrightarrow> files w1 q = files w q"
    "w1\<lparr>files := files w\<rparr> = w"
  shows "appended w1 p s = appended w p s"
proof -
  have f: "(files w1)(p \<mapsto> x) = (files w)(p \<mapsto> x)" for x
    using assms(2) by (intro ext) simp
  have "w1\<lparr>files := g\<rparr> = w\<lparr>files := g\<rparr>" for g
  proof -
    have "w1\<lparr>files := g\<rparr> = (w1\<lparr>files := files w\<rparr>)\<lparr>files := g\<rparr>" by simp
    then show ?thesis by (simp only: assms(3))
  qed
  then show ?thesis by (simp add: appended_def assms(1) f)
qed

lemma export_db_missing_parent:
  assumes "\<not> isdir w (parent_dir (freetube_db_path env user_path w))"
  shows "export_freetube_db env pl user_path quiet w = (Inl FileNotFoundError, w)"
  using ensure_missing_parent[OF assms]
  by (simp add: export_freetube_db_def Let_def)

lemma export_db_appends:
  assumes "isdir w (parent_dir (freetube_db_path env user_path w))"
  shows "export_freetube_db env pl user_path quiet w =
     (Inr (freetube_db_path env user_path w),
      cprint check_mark
        (ustr ''Playlist '' @ [39] @ playlistName pl @ [39] @ ustr '' appended to '' @
         freetube_db_path env user_path w) quiet
        (appended w (freetube_db_path env user_path w) (db_line pl)))"
proof -
  let ?db = "freetube_db_path env user_path w"
  from ensure_ok[OF assms] obtain w1 where
    e: "ensure_file_exists ?db w = Inr w1" and
    s: "stored w1 ?db = stored w ?db" "\<forall>q. q \<noteq> ?db \<longrightarrow> files w1 q = files w q"
       "w1\<lparr>files := files w\<rparr> = w"
    by blast
  have a: "appended w1 ?db (db_line pl) = appended w ?db (db_line pl)"
    using s by (rule appended_eq)
  show ?thesis
    unfolding export_freetube_db_def Let_def e
    by (simp add: split_beta append_steps a[unfolded db_line_def] db_line_def)
qed

lemma path_join_longer:
  "b \<noteq> [] \<Longrightarrow> hd b \<noteq> 47 \<Longrightarrow> length a < length (path_join a b)"
  by (simp add: path_join_def)

lemma db_name_ne: "path_join a (ustr ''playlists.db'') \<noteq> a"
proof -
  have "length a < length (path_join a (ustr ''playlists.db''))"
    by (rule path_join_longer) (simp_all add: ustr_def)
  then show ?thesis by auto
qed

lemma flatpak_ne:
  "path_join (path_join h (ustr ''.config/FreeTube'')) (ustr ''playlists.db'') \<noteq>
   path_join h (ustr ''.var/app/io.freetubeapp.FreeTube/config/FreeTube'')"
  by (simp add: path_join_def ustr_def)

lemma isfile_appended: "isfile (appended w p s) q \<longleftrightarrow> isfile w q \<or> q = p"
  by (simp add: isfile_def appended_def)

lemma isdir_appended [simp]: "isdir (appended w p s) q = isdir w q"
  by (simp add: isdir_def appended_def)

lemma isfile_cprint [simp]: "isfile (cprint h r q w) p = isfile w p"
  by (simp add: isfile_def cprint_def print_def)

lemma isdir_cprint [simp]: "isdir (cprint h r q w) p = isdir w p"
  by (simp add: isdir_def cprint_def print_def)

lemma db_path_stable:
  "freetube_db_path env user_path
     (cprint h r q (appended w (freetube_db_path env user_path w) s)) =
   freetube_db_path env user_path w"
proof (cases "or_else user_path [] \<noteq> []")
  case True
  let ?up = "or_else user_path []"
  show ?thesis
  proof (cases "isfile w ?up \<or> db_suffix ?up")
    case yes: True
    then show ?thesis using True
      by (auto simp: freetube_db_path_def Let_def isfile_appended)
  next
    case no: False
    then have db: "freetube_db_path env user_path w = path_join ?up (ustr ''playlists.db'')"
      using True by (simp add: freetube_db_path_def Let_def)
    have "?up \<noteq> path_join ?up (ustr ''playlists.db'')" using db_name_ne[of ?up] by simp
    then show ?thesis using True no
      by (simp add: db freetube_db_path_def[of env user_path "cprint _ _ _ _"] Let_def
          isfile_appended)
  qed
next
  case False
  let ?F = "path_join (home env) (ustr ''.var/app/io.freetubeapp.FreeTube/config/FreeTube'')"
  show ?thesis
  proof (cases "exists w ?F")
    case True
    then show ?thesis using False
      by (auto simp: freetube_db_path_def Let_def exists_def isfile_appended)
  next
    case no: False
    show ?thesis
    proof (cases "\<not> startswith (platform env) ''win'' \<and> startswith (platform env) ''linux''")
      case True
      then have db: "freetube_db_path env user_path w =
          path_join (path_join (home env) (ustr ''.config/FreeTube'')) (ustr ''playlists.db'')"
        using False no by (simp add: freetube_db_path_def Let_def)
      have "\<not> exists (cprint h r q (appended w (freetube_db_path env user_path w) s)) ?F"
        using no flatpak_ne[of "home env"] by (simp add: db exists_def isfile_appended)
      then show ?thesis using True False
        by (simp add: db freetube_db_path_def[of env user_path "cprint _ _ _ _"] Let_def)
    next
      case other: False
      then show ?thesis using False
        by (auto simp: freetube_db_path_def Let_def)
    qed
  qed
qed

lemma stored_appended:
  "stored (appended w p s) q =
     (if q = p then \<lparr>content = content (stored w p) @ s, durable = content (stored w p) @ s\<rparr>
      else stored w q)"
  by (simp add: appended_def stored_def)

lemma files_appended_other: "q \<noteq> p \<Longrightarrow> files (appended w p s) q = files w q"
  by (simp add: appended_def)

lemma files_appended_self: "files (appended w p s) p \<noteq> None"
  by (simp add: appended_def)

lemma export_db_twice:
  assumes "isdir w (parent_dir (freetube_db_path env user_path w))"
  shows "export_freetube_db env pl2 user_path quiet
           (snd (export_freetube_db env pl1 user_path quiet w)) =
     (Inr (freetube_db_path env user_path w),
      cprint check_mark
        (ustr ''Playlist '' @ [39] @ playlistName pl2 @ [39] @ ustr '' appended to '' @
         freetube_db_path env user_path w) quiet
        (appended
           (cprint check_mark
              (ustr ''Playlist '' @ [39] @ playlistName pl1 @ [39] @ ustr '' appended to '' @
               freetube_db_path env user_path w) quiet
              (appended w (freetube_db_path env user_path w) (db_line pl1)))
           (freetube_db_path env user_path w) (db_line pl2)))"
proof -
  let ?db = "freetube_db_path env user_path w"
  let ?m = "ustr ''Playlist '' @ [39] @ playlistName pl1 @ [39] @ ustr '' appended to '' @ ?db"
  let ?w1 = "cprint check_mark ?m quiet (appended w ?db (db_line pl1))"
  have 1: "snd (export_freetube_db env pl1 user_path quiet w) = ?w1"
    by (simp add: export_db_appends[OF assms])
  have p: "freetube_db_path env user_path ?w1 = ?db" by (rule db_path_stable)
  have d: "isdir ?w1 (parent_dir (freetube_db_path env user_path ?w1))"
    using assms by (simp only: p isdir_cprint isdir_appended)
  show ?thesis
    unfolding 1 using export_db_appends[OF d, of pl2 quiet] by (simp only: p)
qed

lemma printable_dump: "plain j \<Longrightarrow> list_all printable (dump_ascii j)"
  using printable_encode[of j _ 0] by (simp add: list_all_iff dump_ascii_def)

text \<open>
  C1: \<open>export_freetube_db\<close> never truncates the database file. When the parent
  directory is missing it raises \<open>FileNotFoundError\<close> and changes nothing. Otherwise it
  returns the path, and after it the file holds its previous content followed by exactly
  one line, the minified JSON text of the playlist and a line feed; all of it has been
  flushed and forced to storage (the durable content is the content), the file exists,
  and no other file has changed. The JSON text consists of printable ASCII characters
  only, so it holds no line break and its characters are its bytes. After a second
  export the file holds the previous content and the two lines, again all durable; two
  such lines are exactly two lines of the file, and each is accepted by the JSON reader,
  which returns the playlist object (for text fields of Unicode scalar values, exactly
  the object written).
\<close>

theorem db_append:
  "(\<not> isdir w (parent_dir (freetube_db_path env user_path w)) \<longrightarrow>
      export_freetube_db env pl user_path quiet w = (Inl FileNotFoundError, w)) \<and>
   (isdir w (parent_dir (freetube_db_path env user_path w)) \<longrightarrow>
      fst (export_freetube_db env pl user_path quiet w) =
        Inr (freetube_db_path env user_path w) \<and>
      content (stored (snd (export_freetube_db env pl user_path quiet w))
                 (freetube_db_path env user_path w)) =
        content (stored w (freetube_db_path env user_path w)) @
        dump_ascii (to_json_obj pl) @ [10] \<and>
      durable (stored (snd (export_freetube_db env pl user_path quiet w))
                 (freetube_db_path env user_path w)) =
        content (stored (snd (export_freetube_db env pl user_path quiet w))
                   (freetube_db_path env user_path w)) \<and>
      files (snd (export_freetube_db env pl user_path quiet w))
        (freetube_db_path env user_path w) \<noteq> None \<and>
      (\<forall>p. p \<noteq> freetube_db_path env user_path w \<longrightarrow>
         files (snd (export_freetube_db env pl user_path quiet w)) p = files w p) \<and>
      fst (export_freetube_db env pl2 user_path quiet
             (snd (export_freetube_db env pl user_path quiet w))) =
        Inr (freetube_db_path env user_path w) \<and>
      content (stored (snd (export_freetube_db env pl2 user_path quiet
                              (snd (export_freetube_db env pl user_path quiet w))))
                 (freetube_db_path env user_path w)) =
        content (stored w (freetube_db_path env user_path w)) @
        dump_ascii (to_json_obj pl) @ [10] @ dump_ascii (to_json_obj pl2) @ [10] \<and>
      durable (stored (snd (export_freetube_db env pl2 user_path quiet
                              (snd (export_freetube_db env pl user_path quiet w))))
                 (freetube_db_path env user_path w)) =
        content (stored (snd (export_freetube_db env pl2 user_path quiet
                                (snd (export_freetube_db env pl user_path quiet w))))
                   (freetube_db_path env user_path w))) \<and>
   list_all (\<lambda>c. 32 \<le> c \<and> c \<le> 126) (dump_ascii (to_json_obj pl)) \<and>
   file_lines (dump_ascii (to_json_obj pl) @ [10] @ dump_ascii (to_json_obj pl2) @ [10]) =
     [dump_ascii (to_json_obj pl), dump_ascii (to_json_obj pl2)] \<and>
   loads (dump_ascii (to_json_obj pl)) = Some (jcomb (to_json_obj pl)) \<and>
   (valid_json (to_json_obj pl) \<longrightarrow>
      loads (dump_ascii (to_json_obj pl)) = Some (to_json_obj pl))"
proof -
  let ?db = "freetube_db_path env user_path w"
  have 1: "\<not> isdir w (parent_dir ?db) \<longrightarrow>
      export_freetube_db env pl user_path quiet w = (Inl FileNotFoundError, w)"
    using export_db_missing_parent by blast
  have 2: "fst (export_freetube_db env pl user_path quiet w) = Inr ?db \<and>
      content (stored (snd (export_freetube_db env pl user_path quiet w)) ?db) =
        content (stored w ?db) @ dump_ascii (to_json_obj pl) @ [10] \<and>
      durable (stored (snd (export_freetube_db env pl user_path quiet w)) ?db) =
        content (stored (snd (export_freetube_db env pl user_path quiet w)) ?db) \<and>
      files (snd (export_freetube_db env pl user_path quiet w)) ?db \<noteq> None \<and>
      (\<forall>p. p \<noteq> ?db \<longrightarrow>
         files (snd (export_freetube_db env pl user_path quiet w)) p = files w p)"
    if d: "isdir w (parent_dir ?db)"
    by (simp add: export_db_appends[OF d] stored_appended files_appended_other
        files_appended_self db_line_def)
  have 3: "fst (export_freetube_db env pl2 user_path quiet
             (snd (export_freetube_db env pl user_path quiet w))) = Inr ?db \<and>
      content (stored (snd (export_freetube_db env pl2 user_path quiet
                              (snd (export_freetube_db env pl user_path quiet w)))) ?db) =
        content (stored w ?db) @
        dump_ascii (to_json_obj pl) @ [10] @ dump_ascii (to_json_obj pl2) @ [10] \<and>
      durable (stored (snd (export_freetube_db env pl2 user_path quiet
                              (snd (export_freetube_db env pl user_path quiet w)))) ?db) =
        content (stored (snd (export_freetube_db env pl2 user_path quiet
                                (snd (export_freetube_db env pl user_path quiet w)))) ?db)"
    if d: "isdir w (parent_dir ?db)"
    by (simp add: export_db_twice[OF d] stored_appended db_line_def)
  have p: "list_all printable (dump_ascii (to_json_obj pl))"
    "list_all printable (dump_ascii (to_json_obj pl2))"
    by (rule printable_dump, rule plain_to_json_obj)+
  then have 4: "list_all (\<lambda>c. 32 \<le> c \<and> c \<le> 126) (dump_ascii (to_json_obj pl))"
    by (simp add: printable_def[abs_def])
  have n: "10 \<notin> set (dump_ascii (to_json_obj pl))" "10 \<notin> set (dump_ascii (to_json_obj pl2))"
    by (rule dump_no_newline, rule plain_to_json_obj)+
  have 5: "file_lines (dump_ascii (to_json_obj pl) @ [10] @ dump_ascii (to_json_obj pl2) @ [10]) =
     [dump_ascii (to_json_obj pl), dump_ascii (to_json_obj pl2)]"
    using n by (rule file_lines_two)
  have 6: "loads (dump_ascii (to_json_obj pl)) = Some (jcomb (to_json_obj pl))"
    by (rule loads_dump_ascii) (rule plain_to_json_obj)
  have 7: "valid_json (to_json_obj pl) \<longrightarrow>
      loads (dump_ascii (to_json_obj pl)) = Some (to_json_obj pl)"
    using 6 jcomb_valid by simp
  from 1 2 3 4 5 6 7 show ?thesis by blast
qed

lemma example_db_path:
  "freetube_db_path example_env (Some (ustr ''playlists.db'')) example_world = ustr ''playlists.db''"
  by (simp add: freetube_db_path_def or_else_def db_suffix_def endswith_def lower_ascii_def
      ustr_def Let_def)

lemma example_parent: "isdir example_world (parent_dir (ustr ''playlists.db''))"
  by (simp add: isdir_def parent_dir_def dirname_def after_sep_def rfind_def ustr_def upt_rec)

lemma example_line1:
  \<open>dump_ascii (to_json_obj example_playlist) =
     ustr ''{"playlistName":"Mix","protected":false,"description":"","videos":[{"videoId":"dQw4w9WgXcQ","title":"N/A","author":"N/A","authorId":"N/A","lengthSeconds":0,"published":0,"timeAdded":1700000000000,"playlistItemId":"uuid-0","type":"video"}],"_id":"ft-playlist--uuid-0","createdAt":1700000000000,"lastUpdatedAt":1700000000001}''\<close>
  by (simp add: dump_ascii_def to_json_obj_def asdict_video_def example_playlist_def
      example_video_def placeholder_record_def example_env_def encode_str_def escape_ascii_def
      short_escape_def key_separator_def newline_indent_def str_int_def dec.simps ustr_def)

lemma example_line2:
  \<open>dump_ascii (to_json_obj example_playlist2) =
     ustr ''{"playlistName":"'' @ [92] @ ustr ''u00c9'' @ [92] @
     ustr ''n","protected":false,"description":"","videos":[],"_id":"ft-playlist--uuid-1","createdAt":1700000000002,"lastUpdatedAt":1700000000002}''\<close>
  by (simp add: dump_ascii_def to_json_obj_def example_playlist2_def
      encode_str_def escape_ascii_def u_escape_def hex_digit_def
      short_escape_def key_separator_def newline_indent_def str_int_def dec.simps ustr_def)

lemma example_valid: "valid_json (to_json_obj example_playlist)"
  by (simp add: to_json_obj_def asdict_video_def example_playlist_def example_video_def
      placeholder_record_def example_env_def scalar_def ustr_def dec.simps)

text \<open>
  C1 at two playlists appended to a database file that does not exist yet: the file is
  created and holds exactly the two lines, and the first line read back is the first
  playlist.
\<close>

theorem db_append_witness:
  \<open>isdir example_world
     (parent_dir (freetube_db_path example_env (Some (ustr ''playlists.db'')) example_world)) \<and>
   content (stored (snd (export_freetube_db example_env example_playlist2
                           (Some (ustr ''playlists.db'')) True
                           (snd (export_freetube_db example_env example_playlist
                                   (Some (ustr ''playlists.db'')) True example_world))))
              (ustr ''playlists.db'')) =
     ustr ''{"playlistName":"Mix","protected":false,"description":"","videos":[{"videoId":"dQw4w9WgXcQ","title":"N/A","author":"N/A","authorId":"N/A","lengthSeconds":0,"published":0,"timeAdded":1700000000000,"playlistItemId":"uuid-0","type":"video"}],"_id":"ft-playlist--uuid-0","createdAt":1700000000000,"lastUpdatedAt":1700000000001}'' @
     [10] @
     ustr ''{"playlistName":"'' @ [92] @ ustr ''u00c9'' @ [92] @
     ustr ''n","protected":false,"description":"","videos":[],"_id":"ft-playlist--uuid-1","createdAt":1700000000002,"lastUpdatedAt":1700000000002}'' @
     [10] \<and>
   valid_json (to_json_obj example_playlist) \<and>
   loads (ustr ''{"playlistName":"Mix","protected":false,"description":"","videos":[{"videoId":"dQw4w9WgXcQ","title":"N/A","author":"N/A","authorId":"N/A","lengthSeconds":0,"published":0,"timeAdded":1700000000000,"playlistItemId":"uuid-0","type":"video"}],"_id":"ft-playlist--uuid-0","createdAt":1700000000000,"lastUpdatedAt":1700000000001}'') =
     Some (to_json_obj example_playlist)\<close>
proof -
  note T = db_append[of example_world example_env "Some (ustr ''playlists.db'')"
      example_playlist True example_playlist2]
  have e: "content (stored example_world (ustr ''playlists.db'')) = []"
    by (simp add: stored_def example_world_def)
  have d: "isdir example_world
     (parent_dir (freetube_db_path example_env (Some (ustr ''playlists.db'')) example_world))"
    by (simp only: example_db_path example_parent)
  from T d have c: "content (stored (snd (export_freetube_db example_env example_playlist2
                           (Some (ustr ''playlists.db'')) True
                           (snd (export_freetube_db example_env example_playlist
                                   (Some (ustr ''playlists.db'')) True example_world))))
              (ustr ''playlists.db'')) =
        content (stored example_world (ustr ''playlists.db'')) @
        dump_ascii (to_json_obj example_playlist) @ [10] @
        dump_ascii (to_json_obj example_playlist2) @ [10]"
    by (simp only: example_db_path)
  from T example_valid have l: "loads (dump_ascii (to_json_obj example_playlist)) =
      Some (to_json_obj example_playlist)" by blast
  show ?thesis
    using d c l example_valid
    by (simp only: e example_line1 example_line2 append_Nil append_assoc)
qed

end
